theory Spec2Isabelle
  imports Main "HOL-Library.Char_ord" "HOL-Library.List_Lexorder"
begin

section \<open>ECMAScript time values\<close>

text \<open>
  The handlers of \<^verbatim>\<open>netlify/functions/events.js\<close> compute with JavaScript \<^verbatim>\<open>Date\<close>
  objects. A \<^verbatim>\<open>Date\<close> holds a time value: a whole number of milliseconds since
  1970-01-01T00:00:00Z, or NaN (an Invalid Date). The definitions of this section follow the
  abstract operations of the ECMAScript specification (Day, TimeWithinDay, DayFromYear,
  YearFromTime, MonthFromTime, DateFromTime, WeekDay, MakeTime, MakeDay, MakeDate, TimeClip).
\<close>

datatype jsnum = NaN | Num int

definition msPerDay :: int where
  "msPerDay = 86400000"

definition msPerHour :: int where
  "msPerHour = 3600000"

definition msPerMinute :: int where
  "msPerMinute = 60000"

definition Day :: "int \<Rightarrow> int" where
  "Day t = t div msPerDay"

definition TimeWithinDay :: "int \<Rightarrow> int" where
  "TimeWithinDay t = t mod msPerDay"

definition DayFromYear :: "int \<Rightarrow> int" where
  "DayFromYear y =
     365 * (y - 1970) + (y - 1969) div 4 - (y - 1901) div 100 + (y - 1601) div 400"

definition InLeapYear :: "int \<Rightarrow> bool" where
  "InLeapYear y =
     (if y mod 4 \<noteq> 0 then False
      else if y mod 100 \<noteq> 0 then True
      else if y mod 400 \<noteq> 0 then False
      else True)"

definition DaysInYear :: "int \<Rightarrow> int" where
  "DaysInYear y = (if InLeapYear y then 366 else 365)"

text \<open>
  ECMAScript defines YearFromTime as the largest year whose first day is not after the
  given day. \<open>YearFromDay\<close> computes it from the mean length of a Gregorian year
  (146097 days in 400 years), corrected by at most one year; \<open>YearFromDay_bracket\<close>
  below shows that it is that largest year.
\<close>

definition YearFromDay :: "int \<Rightarrow> int" where
  "YearFromDay d =
     (let y = 1970 + (400 * d) div 146097
      in if DayFromYear (y + 1) \<le> d then y + 1
         else if DayFromYear y \<le> d then y
         else y - 1)"

definition YearFromTime :: "int \<Rightarrow> int" where
  "YearFromTime t = YearFromDay (Day t)"

definition DayWithinYear :: "int \<Rightarrow> int" where
  "DayWithinYear t = Day t - DayFromYear (YearFromTime t)"

text \<open>The number of days of a year before its month \<open>m\<close> (0 = January).\<close>

definition DaysBeforeMonth :: "bool \<Rightarrow> int \<Rightarrow> int" where
  "DaysBeforeMonth leap m =
     (let l = (if leap then 1 else 0)
      in if m = 0 then 0
         else if m = 1 then 31
         else if m = 2 then 59 + l
         else if m = 3 then 90 + l
         else if m = 4 then 120 + l
         else if m = 5 then 151 + l
         else if m = 6 then 181 + l
         else if m = 7 then 212 + l
         else if m = 8 then 243 + l
         else if m = 9 then 273 + l
         else if m = 10 then 304 + l
         else 334 + l)"

definition MonthFromTime :: "int \<Rightarrow> int" where
  "MonthFromTime t =
     (let d = DayWithinYear t; l = (if InLeapYear (YearFromTime t) then 1 else 0)
      in if d < 31 then 0
         else if d < 59 + l then 1
         else if d < 90 + l then 2
         else if d < 120 + l then 3
         else if d < 151 + l then 4
         else if d < 181 + l then 5
         else if d < 212 + l then 6
         else if d < 243 + l then 7
         else if d < 273 + l then 8
         else if d < 304 + l then 9
         else if d < 334 + l then 10
         else 11)"

definition DateFromTime :: "int \<Rightarrow> int" where
  "DateFromTime t =
     DayWithinYear t - DaysBeforeMonth (InLeapYear (YearFromTime t)) (MonthFromTime t) + 1"

definition WeekDay :: "int \<Rightarrow> int" where
  "WeekDay t = (Day t + 4) mod 7"

definition MakeTime :: "int \<Rightarrow> int \<Rightarrow> int" where
  "MakeTime h m = h * msPerHour + m * msPerMinute"

text \<open>
  MakeDay: the day number of day-of-month \<open>dt\<close> of month \<open>m\<close> of year \<open>y\<close>, where
  the month may lie outside 0..11 and the day outside the month: both carry over.
\<close>

definition MakeDay :: "int \<Rightarrow> int \<Rightarrow> int \<Rightarrow> int" where
  "MakeDay y m dt =
     (let ym = y + m div 12; mn = m mod 12
      in DayFromYear ym + DaysBeforeMonth (InLeapYear ym) mn + dt - 1)"

definition MakeDate :: "int \<Rightarrow> int \<Rightarrow> int" where
  "MakeDate day time = day * msPerDay + time"

definition TimeClip :: "int \<Rightarrow> jsnum" where
  "TimeClip t = (if \<bar>t\<bar> > 8640000000000000 then NaN else Num t)"

section \<open>JavaScript values\<close>

text \<open>
  The request body is the result of \<^verbatim>\<open>JSON.parse\<close>: a JSON value. \<open>Undefined\<close> is what
  reading a missing property gives. An object is the list of its properties in the order of
  \<^verbatim>\<open>Object.keys\<close>, each key once. Numbers are whole numbers or NaN: fractions and
  infinities are not part of this embedding, and a number is followed only while its
  magnitude is below \<open>10^9\<close>, where every sum and product taken below is exact in
  double precision. A computation that would need a number outside this fragment has the
  result \<open>Untracked\<close>: the embedding says nothing about it.
\<close>

datatype jsval =
    Undefined
  | Null
  | Bool bool
  | Number int
  | Str string
  | Arr "jsval list"
  | Obj "(string \<times> jsval) list"

datatype exn = TypeError | RangeError | StoreError

datatype 'a result = Ok 'a | Throw exn | Untracked

fun rbind :: "'a result \<Rightarrow> ('a \<Rightarrow> 'b result) \<Rightarrow> 'b result" where
  "rbind (Ok v) f = f v"
| "rbind (Throw e) f = Throw e"
| "rbind Untracked f = Untracked"

fun truthy :: "jsval \<Rightarrow> bool" where
  "truthy Undefined = False"
| "truthy Null = False"
| "truthy (Bool b) = b"
| "truthy (Number n) = (n \<noteq> 0)"
| "truthy (Str s) = (s \<noteq> [])"
| "truthy (Arr xs) = True"
| "truthy (Obj kvs) = True"

text \<open>The operator \<^verbatim>\<open>a || b\<close>.\<close>

definition js_or :: "jsval \<Rightarrow> jsval \<Rightarrow> jsval" where
  "js_or a b = (if truthy a then a else b)"

text \<open>Reading a property of the parsed body.\<close>

definition field :: "(string \<times> jsval) list \<Rightarrow> string \<Rightarrow> jsval" where
  "field kvs k = (case map_of kvs k of None \<Rightarrow> Undefined | Some v \<Rightarrow> v)"

definition tracked :: "int \<Rightarrow> jsnum result" where
  "tracked n = (if \<bar>n\<bar> < 1000000000 then Ok (Num n) else Untracked)"

fun js_add :: "jsnum \<Rightarrow> jsnum \<Rightarrow> jsnum" where
  "js_add (Num a) (Num b) = Num (a + b)"
| "js_add _ _ = NaN"

fun js_sub :: "jsnum \<Rightarrow> jsnum \<Rightarrow> jsnum" where
  "js_sub (Num a) (Num b) = Num (a - b)"
| "js_sub _ _ = NaN"

fun js_mul :: "jsnum \<Rightarrow> jsnum \<Rightarrow> jsnum" where
  "js_mul (Num a) (Num b) = Num (a * b)"
| "js_mul _ _ = NaN"

text \<open>The comparison \<^verbatim>\<open>a <= b\<close> of two numbers: false when either is NaN.\<close>

fun js_le :: "jsnum \<Rightarrow> jsnum \<Rightarrow> bool" where
  "js_le (Num a) (Num b) = (a \<le> b)"
| "js_le _ _ = False"

fun isNaN :: "jsnum \<Rightarrow> bool" where
  "isNaN NaN = True"
| "isNaN (Num n) = False"

subsection \<open>Strings and numeric literals\<close>

text \<open>\<^verbatim>\<open>s.split(c)\<close> for a one-character separator.\<close>

fun split_on :: "char \<Rightarrow> string \<Rightarrow> string list" where
  "split_on c [] = [[]]"
| "split_on c (x # xs) =
     (if x = c then [] # split_on c xs
      else (case split_on c xs of [] \<Rightarrow> [[x]] | y # ys \<Rightarrow> (x # y) # ys))"

definition is_digit :: "char \<Rightarrow> bool" where
  "is_digit c = (48 \<le> (of_char c :: nat) \<and> (of_char c :: nat) \<le> 57)"

definition digit_val :: "char \<Rightarrow> int" where
  "digit_val c = int (of_char c) - 48"

definition digits_val :: "string \<Rightarrow> int" where
  "digits_val s = foldl (\<lambda>a c. 10 * a + digit_val c) 0 s"

definition is_space :: "char \<Rightarrow> bool" where
  "is_space c = ((of_char c :: nat) \<in> {9, 10, 11, 12, 13, 32})"

definition trim :: "string \<Rightarrow> string" where
  "trim s = rev (dropWhile is_space (rev (dropWhile is_space s)))"

definition strip_sign :: "string \<Rightarrow> string" where
  "strip_sign s =
     (case s of [] \<Rightarrow> [] | c # r \<Rightarrow> if c = CHR ''+'' \<or> c = CHR ''-'' then r else s)"

definition is_int_literal :: "string \<Rightarrow> bool" where
  "is_int_literal s = (strip_sign s \<noteq> [] \<and> list_all is_digit (strip_sign s))"

definition int_literal_val :: "string \<Rightarrow> int" where
  "int_literal_val s =
     (case s of [] \<Rightarrow> 0
      | c # r \<Rightarrow> if c = CHR ''-'' then - digits_val r else digits_val (strip_sign s))"

text \<open>
  The grammar StringNumericLiteral of ECMAScript on a trimmed ASCII string: a signed
  decimal literal (digits with an optional fraction and exponent, or \<^verbatim>\<open>Infinity\<close>), or an
  unsigned binary, octal or hexadecimal integer literal.
\<close>

definition is_exponent_opt :: "string \<Rightarrow> bool" where
  "is_exponent_opt r =
     (case r of [] \<Rightarrow> True
      | e # r' \<Rightarrow> (e = CHR ''e'' \<or> e = CHR ''E'') \<and> strip_sign r' \<noteq> [] \<and>
                 list_all is_digit (strip_sign r'))"

definition is_StrUnsignedDecimalLiteral :: "string \<Rightarrow> bool" where
  "is_StrUnsignedDecimalLiteral u =
     (u = ''Infinity'' \<or>
      (let ip = takeWhile is_digit u; r1 = dropWhile is_digit u
       in case r1 of
            [] \<Rightarrow> ip \<noteq> []
          | c # r \<Rightarrow>
              if c = CHR ''.''
              then (ip \<noteq> [] \<or> takeWhile is_digit r \<noteq> []) \<and> is_exponent_opt (dropWhile is_digit r)
              else ip \<noteq> [] \<and> is_exponent_opt r1))"

definition is_hex_digit :: "char \<Rightarrow> bool" where
  "is_hex_digit c =
     (is_digit c \<or> (65 \<le> (of_char c :: nat) \<and> (of_char c :: nat) \<le> 70)
                \<or> (97 \<le> (of_char c :: nat) \<and> (of_char c :: nat) \<le> 102))"

definition is_NonDecimalIntegerLiteral :: "string \<Rightarrow> bool" where
  "is_NonDecimalIntegerLiteral s =
     (case s of
        z # p # r \<Rightarrow>
          z = CHR ''0'' \<and> r \<noteq> [] \<and>
          (if p = CHR ''x'' \<or> p = CHR ''X'' then list_all is_hex_digit r
           else if p = CHR ''o'' \<or> p = CHR ''O''
             then list_all (\<lambda>c. 48 \<le> (of_char c :: nat) \<and> (of_char c :: nat) \<le> 55) r
           else if p = CHR ''b'' \<or> p = CHR ''B''
             then list_all (\<lambda>c. c = CHR ''0'' \<or> c = CHR ''1'') r
           else False)
      | _ \<Rightarrow> False)"

definition is_StrNumericLiteral :: "string \<Rightarrow> bool" where
  "is_StrNumericLiteral s =
     (is_StrUnsignedDecimalLiteral (strip_sign s) \<or> is_NonDecimalIntegerLiteral s)"

text \<open>
  \<^verbatim>\<open>Number(s)\<close> for a string. Blank strings are 0, decimal integer literals have their
  value, and a string that is no numeric literal at all is NaN. The other literals
  (fractions, exponents, \<^verbatim>\<open>Infinity\<close>, radix prefixes), integers of magnitude \<open>10^9\<close> and
  more, and strings with characters outside ASCII (among them the Unicode white space that
  \<^verbatim>\<open>Number\<close> trims) are outside the fragment.
\<close>

definition Number_js :: "string \<Rightarrow> jsnum result" where
  "Number_js s =
     (if \<not> list_all (\<lambda>c. (of_char c :: nat) < 128) s then Untracked
      else let t = trim s
           in if t = [] then Ok (Num 0)
              else if is_int_literal t then tracked (int_literal_val t)
              else if is_StrNumericLiteral t then Untracked
              else Ok NaN)"

text \<open>
  \<^verbatim>\<open>n.toString()\<close> for the numbers of the fragment, and \<^verbatim>\<open>s.padStart(2, '0')\<close>, which
  leaves a string of two characters or more as it is (the subtraction on \<open>nat\<close> stops at 0).
\<close>

fun nat_digits :: "nat \<Rightarrow> string" where
  "nat_digits n =
     (if n < 10 then [char_of (48 + n)]
      else nat_digits (n div 10) @ [char_of (48 + n mod 10)])"

declare nat_digits.simps [simp del]

definition num_to_string :: "jsnum \<Rightarrow> string" where
  "num_to_string v =
     (case v of NaN \<Rightarrow> ''NaN''
      | Num n \<Rightarrow> if n < 0 then CHR ''-'' # nat_digits (nat (- n)) else nat_digits (nat n))"

definition padStart2 :: "string \<Rightarrow> string" where
  "padStart2 s = replicate (2 - length s) CHR ''0'' @ s"

subsection \<open>Coercions\<close>

text \<open>
  ToNumber, as the operator \<^verbatim>\<open>*\<close> applies it. An object parsed from JSON has no
  callable \<^verbatim>\<open>valueOf\<close> or \<^verbatim>\<open>toString\<close> of its own: it converts through
  \<^verbatim>\<open>Object.prototype.toString\<close> to NaN, unless an own property \<^verbatim>\<open>toString\<close> hides that
  method, which is a TypeError. A non-empty array converts through its elements and is
  not followed.
\<close>

fun ToNumber :: "jsval \<Rightarrow> jsnum result" where
  "ToNumber Undefined = Ok NaN"
| "ToNumber Null = Ok (Num 0)"
| "ToNumber (Bool b) = Ok (Num (if b then 1 else 0))"
| "ToNumber (Number n) = tracked n"
| "ToNumber (Str s) = Number_js s"
| "ToNumber (Arr xs) = (if xs = [] then Ok (Num 0) else Untracked)"
| "ToNumber (Obj kvs) = (if ''toString'' \<in> set (map fst kvs) then Throw TypeError else Ok NaN)"

fun rmap :: "('a \<Rightarrow> 'b result) \<Rightarrow> 'a list \<Rightarrow> 'b list result" where
  "rmap f [] = Ok []"
| "rmap f (x # xs) = rbind (f x) (\<lambda>y. rbind (rmap f xs) (\<lambda>ys. Ok (y # ys)))"

section \<open>Date objects\<close>

text \<open>
  A \<^verbatim>\<open>Date\<close> is its time value. The local time zone of the host is taken to be at a fixed
  offset \<open>tza\<close> (in milliseconds) from UTC; the functions that read or build local time
  take it as their first argument.
\<close>

definition LocalTime :: "int \<Rightarrow> int \<Rightarrow> int" where
  "LocalTime tza t = t + tza"

definition UTC :: "int \<Rightarrow> int \<Rightarrow> int" where
  "UTC tza t = t - tza"

definition getFullYear :: "int \<Rightarrow> jsnum \<Rightarrow> jsnum" where
  "getFullYear tza d = (case d of NaN \<Rightarrow> NaN | Num t \<Rightarrow> Num (YearFromTime (LocalTime tza t)))"

definition getMonth :: "int \<Rightarrow> jsnum \<Rightarrow> jsnum" where
  "getMonth tza d = (case d of NaN \<Rightarrow> NaN | Num t \<Rightarrow> Num (MonthFromTime (LocalTime tza t)))"

definition getDate :: "int \<Rightarrow> jsnum \<Rightarrow> jsnum" where
  "getDate tza d = (case d of NaN \<Rightarrow> NaN | Num t \<Rightarrow> Num (DateFromTime (LocalTime tza t)))"

definition getDay :: "int \<Rightarrow> jsnum \<Rightarrow> jsnum" where
  "getDay tza d = (case d of NaN \<Rightarrow> NaN | Num t \<Rightarrow> Num (WeekDay (LocalTime tza t)))"

text \<open>
  \<^verbatim>\<open>new Date(year, month, day, hours, minutes)\<close>: a year from 0 to 99 stands for
  1900 + year; the fields are read in local time.
\<close>

fun new_Date :: "int \<Rightarrow> jsnum \<Rightarrow> jsnum \<Rightarrow> jsnum \<Rightarrow> jsnum \<Rightarrow> jsnum \<Rightarrow> jsnum" where
  "new_Date tza (Num y) (Num m) (Num dt) (Num h) (Num mi) =
     (let yr = (if 0 \<le> y \<and> y \<le> 99 then 1900 + y else y)
      in TimeClip (UTC tza (MakeDate (MakeDay yr m dt) (MakeTime h mi))))"
| "new_Date tza _ _ _ _ _ = NaN"

text \<open>\<^verbatim>\<open>new Date(value)\<close> for a number.\<close>

definition new_Date_value :: "jsnum \<Rightarrow> jsnum" where
  "new_Date_value v = (case v of NaN \<Rightarrow> NaN | Num t \<Rightarrow> TimeClip t)"

fun setDate :: "int \<Rightarrow> jsnum \<Rightarrow> jsnum \<Rightarrow> jsnum" where
  "setDate tza (Num t) (Num dt) =
     (let lt = LocalTime tza t
      in TimeClip (UTC tza (MakeDate (MakeDay (YearFromTime lt) (MonthFromTime lt) dt)
                                      (TimeWithinDay lt))))"
| "setDate tza _ _ = NaN"

text \<open>
  \<^verbatim>\<open>toISOString\<close> raises a RangeError on an Invalid Date. On a valid one it prints the
  time value in UTC; the embedding keeps the time value in place of the text.
\<close>

definition toISOString :: "jsnum \<Rightarrow> int result" where
  "toISOString d = (case d of NaN \<Rightarrow> Throw RangeError | Num t \<Rightarrow> Ok t)"

section \<open>The helper functions of events.js\<close>

definition formatDateToYYYYMMDD :: "int \<Rightarrow> jsnum \<Rightarrow> string" where
  "formatDateToYYYYMMDD tza date =
     (let year = getFullYear tza date;
          month = padStart2 (num_to_string (js_add (getMonth tza date) (Num 1)));
          day = padStart2 (num_to_string (getDate tza date))
      in num_to_string year @ ''-'' @ month @ ''-'' @ day)"

text \<open>
  An element of a destructured array of converted parts: a missing element is
  \<^verbatim>\<open>undefined\<close>, which is NaN for \<^verbatim>\<open>isNaN\<close> and for the \<^verbatim>\<open>Date\<close> constructor alike.
\<close>

definition component :: "string list \<Rightarrow> nat \<Rightarrow> jsnum result" where
  "component parts i = (if i < length parts then Number_js (parts ! i) else Ok NaN)"

definition parseDateTime :: "int \<Rightarrow> jsval \<Rightarrow> jsval \<Rightarrow> jsnum result" where
  "parseDateTime tza dateString timeString =
     (case dateString of
        Str ds \<Rightarrow>
          (let cleanDateString = (case split_on CHR ''T'' ds of [] \<Rightarrow> [] | p # _ \<Rightarrow> p);
               dparts = split_on CHR ''-'' cleanDateString
           in rbind (component dparts 0) (\<lambda>year.
              rbind (component dparts 1) (\<lambda>month.
              rbind (component dparts 2) (\<lambda>day.
                case (case timeString of Undefined \<Rightarrow> Str ''00:00'' | v \<Rightarrow> v) of
                  Str ts \<Rightarrow>
                    (let tparts = split_on CHR '':'' ts
                     in rbind (component tparts 0) (\<lambda>hours.
                        rbind (component tparts 1) (\<lambda>minutes.
                          if isNaN year \<or> isNaN month \<or> isNaN day then Ok NaN
                          else Ok (new_Date tza year (js_sub month (Num 1)) day hours minutes))))
                | _ \<Rightarrow> Throw TypeError))))
      | _ \<Rightarrow> Throw TypeError)"

section \<open>The events table\<close>

text \<open>
  A row of the table \<^verbatim>\<open>events\<close>, with the columns the statements of the handler name
  (the column \<^verbatim>\<open>type\<close> is the field \<open>ev_type\<close>). A cell holds what the query parameter
  held: \<^verbatim>\<open>undefined\<close> and \<^verbatim>\<open>null\<close> are sent as NULL, an object as its JSON text.
  \<open>SqlTime t\<close> is the ISO text of the time value \<open>t\<close>, \<open>SqlJson v\<close> the JSON text of \<open>v\<close>.
\<close>

datatype sqlval =
    SqlNull
  | SqlBool bool
  | SqlInt int
  | SqlText string
  | SqlTime int
  | SqlJson jsval
  | SqlArr "jsval list"

record event_row =
  uid :: sqlval
  summary :: sqlval
  ev_type :: sqlval
  dtstart :: sqlval
  dtend :: sqlval
  description :: sqlval
  is_recurring :: sqlval
  recurring_days :: sqlval
  series_id :: sqlval
  recur_until :: sqlval
  series_start_date :: sqlval

fun to_sql :: "jsval \<Rightarrow> sqlval" where
  "to_sql Undefined = SqlNull"
| "to_sql Null = SqlNull"
| "to_sql (Bool b) = SqlBool b"
| "to_sql (Number n) = SqlInt n"
| "to_sql (Str s) = SqlText s"
| "to_sql (Arr xs) = SqlArr xs"
| "to_sql (Obj kvs) = SqlJson (Obj kvs)"

text \<open>\<^verbatim>\<open>JSON.stringify(v)\<close> as a query parameter.\<close>

definition JSON_stringify :: "jsval \<Rightarrow> sqlval" where
  "JSON_stringify v = (case v of Undefined \<Rightarrow> SqlNull | _ \<Rightarrow> SqlJson v)"

text \<open>
  The connection: the table as the statements so far have left it, the number of
  statements run, and the number of identifiers drawn from \<^verbatim>\<open>crypto.randomUUID\<close>. The
  store may refuse any statement: \<open>fault k\<close> says that statement number \<open>k\<close> of the request
  raises.
\<close>

record txn =
  tbl :: "event_row list"
  qn :: nat
  un :: nat

definition query :: "(nat \<Rightarrow> bool) \<Rightarrow> (event_row list \<Rightarrow> event_row list) \<Rightarrow> txn \<Rightarrow> txn result" where
  "query fault f st =
     (if fault (qn st) then Throw StoreError
      else Ok (st\<lparr>tbl := f (tbl st), qn := Suc (qn st)\<rparr>))"

text \<open>
  \<open>refused flt a n\<close>: the store refuses one of the \<open>n\<close> statements numbered from \<open>a\<close>.
\<close>

definition refused :: "(nat \<Rightarrow> bool) \<Rightarrow> nat \<Rightarrow> nat \<Rightarrow> bool" where
  "refused flt a n = list_ex flt [a..<a + n]"

record response =
  statusCode :: nat
  body :: string

section \<open>Stepping a date by one day\<close>

text \<open>
  \<^verbatim>\<open>d.setDate(d.getDate() + 1)\<close> adds one day to the time value; the loops below
  terminate by this fact.
\<close>

lemma MonthFromTime_range: "0 \<le> MonthFromTime t \<and> MonthFromTime t \<le> 11"
  by (simp add: MonthFromTime_def Let_def)

lemma MakeDay_of_fields:
  "MakeDay (YearFromTime t) (MonthFromTime t) dt = Day t - DateFromTime t + dt"
proof -
  have d: "MonthFromTime t div 12 = 0" and m: "MonthFromTime t mod 12 = MonthFromTime t"
    using MonthFromTime_range[of t] by simp_all
  show ?thesis
    by (simp add: MakeDay_def d m Let_def DateFromTime_def DayWithinYear_def)
qed

lemma Day_TimeWithinDay: "Day t * msPerDay + TimeWithinDay t = t"
  by (simp add: Day_def TimeWithinDay_def)

lemma setDate_next:
  "setDate tza (Num t) (js_add (getDate tza (Num t)) (Num 1)) = TimeClip (t + msPerDay)"
proof -
  have "MakeDate (Day (t + tza) + 1) (TimeWithinDay (t + tza)) = t + tza + msPerDay"
    using Day_TimeWithinDay[of "t + tza"] by (simp add: MakeDate_def algebra_simps)
  then show ?thesis
    by (simp add: getDate_def LocalTime_def UTC_def MakeDay_of_fields Let_def)
qed

section \<open>The handler of events.js: PUT\<close>

text \<open>
  What the loop of the series branch reads and does not change: the time zone of the
  host, the source of random identifiers, the faults of the store, the query parameter,
  the body, the selected weekdays and the end of the range.
\<close>

record series_cx =
  tza :: int
  uuid :: "nat \<Rightarrow> string"
  fault :: "nat \<Rightarrow> bool"
  seriesId :: string
  eventData :: "(string \<times> jsval) list"
  selectedDays :: "jsnum list"
  untilDate :: jsnum

text \<open>
  \<^verbatim>\<open>Object.keys(recurring_days).filter(day => recurring_days[day]).map(Number)\<close>. The keys
  of an array or a string are its indices, and every character of a string is truthy.
\<close>

fun selected_days :: "jsval \<Rightarrow> jsnum list result" where
  "selected_days Undefined = Throw TypeError"
| "selected_days Null = Throw TypeError"
| "selected_days (Bool b) = Ok []"
| "selected_days (Number n) = Ok []"
| "selected_days (Str s) = rmap (\<lambda>i. tracked (int i)) [0..<length s]"
| "selected_days (Arr xs) = rmap (\<lambda>i. tracked (int i)) (filter (\<lambda>i. truthy (xs ! i)) [0..<length xs])"
| "selected_days (Obj kvs) = rmap Number_js (filter (\<lambda>day. truthy (field kvs day)) (map fst kvs))"

text \<open>The values of one INSERT of the series branch; \<open>n\<close> counts the identifiers drawn.\<close>

definition insert_row ::
  "(nat \<Rightarrow> string) \<Rightarrow> string \<Rightarrow> (string \<times> jsval) list \<Rightarrow> nat \<Rightarrow> int \<Rightarrow> int \<Rightarrow> event_row" where
  "insert_row gen sid ed n eventStart eventEnd =
     \<lparr>uid = SqlText (''manual-'' @ gen n),
      summary = to_sql (field ed ''summary''),
      ev_type = to_sql (field ed ''type''),
      dtstart = SqlTime eventStart,
      dtend = SqlTime eventEnd,
      description = to_sql (js_or (field ed ''description'') Null),
      is_recurring = SqlBool True,
      recurring_days = JSON_stringify (field ed ''recurring_days''),
      series_id = SqlText sid,
      recur_until = to_sql (field ed ''recur_until''),
      series_start_date = to_sql (field ed ''series_start_date'')\<rparr>"

text \<open>\<^verbatim>\<open>type === 'meet-and-greet' ? 30 : duration\<close>.\<close>

definition finalDuration :: "(string \<times> jsval) list \<Rightarrow> jsval" where
  "finalDuration ed =
     (if field ed ''type'' = Str ''meet-and-greet'' then Number 30 else field ed ''duration'')"

text \<open>One pass through the body of the \<^verbatim>\<open>while\<close> loop, up to the step of the date.\<close>

definition loop_body :: "series_cx \<Rightarrow> jsnum \<Rightarrow> txn \<Rightarrow> txn result" where
  "loop_body cx currentDate st =
     (if getDay (tza cx) currentDate \<in> set (selectedDays cx) then
        rbind (parseDateTime (tza cx) (Str (formatDateToYYYYMMDD (tza cx) currentDate))
                 (field (eventData cx) ''time'')) (\<lambda>eventStart.
        rbind (ToNumber (finalDuration (eventData cx))) (\<lambda>minutes.
        let eventEnd = new_Date_value (js_add eventStart (js_mul minutes (Num 60000)))
        in rbind (toISOString eventStart) (\<lambda>s.
           rbind (toISOString eventEnd) (\<lambda>e.
             query (fault cx)
               (\<lambda>rows. rows @ [insert_row (uuid cx) (seriesId cx) (eventData cx) (un st) s e])
               (st\<lparr>un := Suc (un st)\<rparr>)))))
      else Ok st)"

function series_loop :: "series_cx \<Rightarrow> jsnum \<Rightarrow> txn \<Rightarrow> txn result" where
  "series_loop cx currentDate st =
     (if js_le currentDate (untilDate cx) then
        (case loop_body cx currentDate st of
           Ok st' \<Rightarrow>
             series_loop cx
               (setDate (tza cx) currentDate (js_add (getDate (tza cx) currentDate) (Num 1))) st'
         | Throw e \<Rightarrow> Throw e
         | Untracked \<Rightarrow> Untracked)
      else Ok st)"
  by pat_completeness auto
termination
proof (relation "measure (\<lambda>(cx, cur, st).
          case (untilDate cx, cur) of (Num u, Num c) \<Rightarrow> nat (u - c + 1) | _ \<Rightarrow> 0)")
  show "wf (measure (\<lambda>(cx, cur, st).
          case (untilDate cx, cur) of (Num u, Num c) \<Rightarrow> nat (u - c + 1) | _ \<Rightarrow> 0))"
    by simp
next
  fix cx :: series_cx and currentDate :: jsnum and st x1 :: txn
  assume le: "js_le currentDate (untilDate cx)"
  then obtain c u where c: "currentDate = Num c" and u: "untilDate cx = Num u" and cu: "c \<le> u"
    by (cases currentDate; cases "untilDate cx") auto
  have n: "setDate (tza cx) currentDate (js_add (getDate (tza cx) currentDate) (Num 1))
             = TimeClip (c + msPerDay)"
    unfolding c by (rule setDate_next)
  show "((cx, setDate (tza cx) currentDate (js_add (getDate (tza cx) currentDate) (Num 1)), x1),
         (cx, currentDate, st))
        \<in> measure (\<lambda>(cx, cur, st).
          case (untilDate cx, cur) of (Num u, Num c) \<Rightarrow> nat (u - c + 1) | _ \<Rightarrow> 0)"
    unfolding n using cu by (simp add: c u TimeClip_def msPerDay_def)
qed

declare series_loop.simps [simp del]

text \<open>
  The series branch: BEGIN, DELETE of the rows of the series, the expansion with its
  INSERT statements, COMMIT. Any exception leaves through \<open>Throw\<close>.
\<close>

definition replace_series ::
  "int \<Rightarrow> (nat \<Rightarrow> string) \<Rightarrow> (nat \<Rightarrow> bool) \<Rightarrow> string \<Rightarrow> (string \<times> jsval) list \<Rightarrow>
   event_row list \<Rightarrow> txn result" where
  "replace_series z gen flt sid ed rows =
     rbind (query flt (\<lambda>t. t) \<lparr>tbl = rows, qn = 0, un = 0\<rparr>) (\<lambda>st1.
     rbind (query flt (filter (\<lambda>r. series_id r \<noteq> SqlText sid)) st1) (\<lambda>st2.
     rbind (selected_days (field ed ''recurring_days'')) (\<lambda>sel.
     rbind (parseDateTime z (field ed ''series_start_date'') Undefined) (\<lambda>currentDate.
     rbind (parseDateTime z (field ed ''recur_until'') (Str ''23:59'')) (\<lambda>until.
     rbind (series_loop
              \<lparr>tza = z, uuid = gen, fault = flt, seriesId = sid, eventData = ed,
               selectedDays = (if length sel = 0 then map Num [0, 1, 2, 3, 4, 5, 6] else sel),
               untilDate = until\<rparr> currentDate st2) (\<lambda>st3.
     query flt (\<lambda>t. t) st3))))))"

text \<open>The \<^verbatim>\<open>SET\<close> list of the single-event branch, from the values array.\<close>

definition update_row :: "(string \<times> jsval) list \<Rightarrow> event_row \<Rightarrow> event_row" where
  "update_row ed r =
     r\<lparr>summary := to_sql (field ed ''summary''),
       ev_type := to_sql (field ed ''type''),
       dtstart := to_sql (field ed ''dtstart''),
       dtend := to_sql (field ed ''dtend''),
       description := to_sql (js_or (field ed ''description'') Null),
       is_recurring := to_sql (js_or (field ed ''is_recurring'') (Bool False)),
       recurring_days :=
         (if truthy (field ed ''recurring_days'')
          then JSON_stringify (field ed ''recurring_days'') else SqlNull),
       series_id := to_sql (js_or (field ed ''series_id'') Null),
       recur_until := to_sql (js_or (field ed ''recur_until'') Null),
       series_start_date := to_sql (js_or (field ed ''series_start_date'') Null)\<rparr>"

definition update_single ::
  "(nat \<Rightarrow> bool) \<Rightarrow> string \<Rightarrow> (string \<times> jsval) list \<Rightarrow> event_row list \<Rightarrow> txn result" where
  "update_single flt u ed rows =
     query flt (map (\<lambda>r. if uid r = SqlText u then update_row ed r else r))
       \<lparr>tbl = rows, qn = 0, un = 0\<rparr>"

text \<open>
  The PUT branch of the handler. The query parameters \<^verbatim>\<open>seriesId\<close> and \<^verbatim>\<open>uid\<close> are
  strings or absent; the body is a JSON object. The result is the response and the
  committed table: a transaction that raised was rolled back (the ROLLBACK itself is taken
  to succeed), and the outer \<^verbatim>\<open>catch\<close> answers 500. \<open>None\<close> stands for a request outside the fragment.
\<close>

definition param_given :: "string option \<Rightarrow> bool" where
  "param_given p = (case p of None \<Rightarrow> False | Some s \<Rightarrow> s \<noteq> [])"

definition handler_PUT ::
  "int \<Rightarrow> (nat \<Rightarrow> string) \<Rightarrow> (nat \<Rightarrow> bool) \<Rightarrow> string option \<Rightarrow> string option \<Rightarrow>
   (string \<times> jsval) list \<Rightarrow> event_row list \<Rightarrow> (response \<times> event_row list) option" where
  "handler_PUT z gen flt p_seriesId p_uid ed rows =
     (if param_given p_seriesId then
        (case replace_series z gen flt (the p_seriesId) ed rows of
           Ok st \<Rightarrow> Some (\<lparr>statusCode = 200, body = ''Event series updated successfully''\<rparr>, tbl st)
         | Throw e \<Rightarrow> Some (\<lparr>statusCode = 500, body = ''Internal Server Error''\<rparr>, rows)
         | Untracked \<Rightarrow> None)
      else if param_given p_uid then
        (case update_single flt (the p_uid) ed rows of
           Ok st \<Rightarrow> Some (\<lparr>statusCode = 200, body = ''Event updated successfully''\<rparr>, tbl st)
         | Throw e \<Rightarrow> Some (\<lparr>statusCode = 500, body = ''Internal Server Error''\<rparr>, rows)
         | Untracked \<Rightarrow> None)
      else Some (\<lparr>statusCode = 405, body = ''Method Not Allowed''\<rparr>, rows))"

section \<open>The handler of getPetNames.js\<close>

text \<open>
  The operator LIKE of the store: in a pattern \<^verbatim>\<open>%\<close> matches any run of characters,
  \<^verbatim>\<open>_\<close> any one character, and a backslash makes the next character literal. ILIKE
  compares without regard to case; the embedding folds the ASCII letters. The store rejects
  a pattern that ends in a lone backslash; the handler's pattern ends in \<^verbatim>\<open>%\<close>, so the
  case does not arise, and \<open>like\<close> answers \<open>False\<close> there.
\<close>

fun like :: "string \<Rightarrow> string \<Rightarrow> bool" where
  "like [] s = (s = [])"
| "like (p # ps) [] = (p = CHR ''%'' \<and> like ps [])"
| "like (p # ps) (c # cs) =
     (if p = CHR ''%'' then like ps (c # cs) \<or> like (p # ps) cs
      else if p = CHR 0x5C then (case ps of [] \<Rightarrow> False | q # qs \<Rightarrow> q = c \<and> like qs cs)
      else if p = CHR ''_'' then like ps cs
      else p = c \<and> like ps cs)"

definition lower :: "char \<Rightarrow> char" where
  "lower c =
     (if 65 \<le> (of_char c :: nat) \<and> (of_char c :: nat) \<le> 90 then char_of (of_char c + 32 :: nat)
      else c)"

definition ilike :: "string \<Rightarrow> string \<Rightarrow> bool" where
  "ilike s pat = like (map lower pat) (map lower s)"

text \<open>
  \<^verbatim>\<open>SELECT DISTINCT summary FROM events WHERE summary ILIKE $1 ORDER BY summary ASC LIMIT 10\<close>.
  The order of the column is taken to be the order of the character codes, and a cell of
  the column that was not written from a string is left out.
\<close>

definition select_summaries :: "string \<Rightarrow> event_row list \<Rightarrow> string list" where
  "select_summaries pat rows =
     take 10 (sort (remdups
       (concat (map (\<lambda>r. case summary r of
                             SqlText s \<Rightarrow> if ilike s pat then [s] else []
                           | _ \<Rightarrow> []) rows))))"

text \<open>
  The handler for a GET request, from the query parameter \<^verbatim>\<open>q\<close> and the table to the
  status code and the array of the body. \<open>flt\<close> says that the store refuses the query.
\<close>

definition getPetNames :: "bool \<Rightarrow> string option \<Rightarrow> event_row list \<Rightarrow> nat \<times> string list" where
  "getPetNames flt q rows =
     (case q of
        None \<Rightarrow> (200, [])
      | Some searchQuery \<Rightarrow>
          if searchQuery = [] \<or> length searchQuery < 2 then (200, [])
          else if flt then (500, [])
          else (200, select_summaries (''%'' @ searchQuery @ ''%'') rows))"

section \<open>The expansion as the specification states it\<close>

text \<open>
  The specification speaks of the calendar days of the range whose weekday is selected,
  and of one instance for each. \<open>expected_days\<close> lists those days (as day numbers, in
  ascending order); \<open>instance_start\<close> is the instant \<open>h\<close> hours and \<open>mi\<close>
  minutes after the local midnight of day \<open>d\<close>; \<open>series_rows\<close> are the rows for a list of days, the \<open>n\<close>-th
  random identifier going to the first.
\<close>

definition instance_start :: "int \<Rightarrow> int \<Rightarrow> int \<Rightarrow> int \<Rightarrow> int" where
  "instance_start z h mi d = UTC z (MakeDate d (MakeTime h mi))"

definition expected_days :: "int \<Rightarrow> int \<Rightarrow> jsnum list \<Rightarrow> int list" where
  "expected_days d0 d1 sel = filter (\<lambda>d. Num ((d + 4) mod 7) \<in> set sel) [d0..d1]"

definition series_instances :: "int \<Rightarrow> int \<Rightarrow> int \<Rightarrow> int \<Rightarrow> int list \<Rightarrow> (int \<times> int) list" where
  "series_instances z h mi dur ds =
     map (\<lambda>d. (instance_start z h mi d, instance_start z h mi d + dur * 60000)) ds"

fun pair_rows ::
  "(nat \<Rightarrow> string) \<Rightarrow> string \<Rightarrow> (string \<times> jsval) list \<Rightarrow> nat \<Rightarrow> (int \<times> int) list \<Rightarrow> event_row list" where
  "pair_rows gen sid ed n [] = []"
| "pair_rows gen sid ed n (p # ps) =
     insert_row gen sid ed n (fst p) (snd p) # pair_rows gen sid ed (Suc n) ps"

definition series_rows ::
  "int \<Rightarrow> (nat \<Rightarrow> string) \<Rightarrow> string \<Rightarrow> (string \<times> jsval) list \<Rightarrow> int \<Rightarrow> int \<Rightarrow> int \<Rightarrow> nat \<Rightarrow>
   int list \<Rightarrow> event_row list" where
  "series_rows z gen sid ed h mi dur n ds = pair_rows gen sid ed n (series_instances z h mi dur ds)"

text \<open>
  The Series Expander of the specification, read off the loop: the pairs of start and end
  that one day contributes (\<open>None\<close> when its weekday is not selected), and the pairs of the
  whole walk from \<open>cur\<close> to \<open>until\<close>.
\<close>

definition day_instance ::
  "int \<Rightarrow> (string \<times> jsval) list \<Rightarrow> jsnum list \<Rightarrow> jsnum \<Rightarrow> (int \<times> int) option result" where
  "day_instance z ed sel currentDate =
     (if getDay z currentDate \<in> set sel then
        rbind (parseDateTime z (Str (formatDateToYYYYMMDD z currentDate)) (field ed ''time''))
          (\<lambda>eventStart.
        rbind (ToNumber (finalDuration ed)) (\<lambda>minutes.
        rbind (toISOString eventStart) (\<lambda>s.
        rbind (toISOString (new_Date_value (js_add eventStart (js_mul minutes (Num 60000)))))
          (\<lambda>e. Ok (Some (s, e))))))
      else Ok None)"

function expand ::
  "int \<Rightarrow> (string \<times> jsval) list \<Rightarrow> jsnum list \<Rightarrow> jsnum \<Rightarrow> jsnum \<Rightarrow> (int \<times> int) list result" where
  "expand z ed sel until cur =
     (if js_le cur until then
        (case day_instance z ed sel cur of
           Ok inst \<Rightarrow>
             (case expand z ed sel until (setDate z cur (js_add (getDate z cur) (Num 1))) of
                Ok ps \<Rightarrow> Ok (case inst of None \<Rightarrow> ps | Some p \<Rightarrow> p # ps)
              | Throw e \<Rightarrow> Throw e
              | Untracked \<Rightarrow> Untracked)
         | Throw e \<Rightarrow> Throw e
         | Untracked \<Rightarrow> Untracked)
      else Ok [])"
  by pat_completeness auto
termination
proof (relation "measure (\<lambda>(z, ed, sel, until, cur).
          case (until, cur) of (Num u, Num c) \<Rightarrow> nat (u - c + 1) | _ \<Rightarrow> 0)")
  show "wf (measure (\<lambda>(z, ed, sel, until, cur).
          case (until, cur) of (Num u, Num c) \<Rightarrow> nat (u - c + 1) | _ \<Rightarrow> 0))"
    by simp
next
  fix z :: int and ed :: "(string \<times> jsval) list" and sel :: "jsnum list" and until cur :: jsnum
  assume "js_le cur until"
  then obtain c u where c: "cur = Num c" and u: "until = Num u" and cu: "c \<le> u"
    by (cases cur; cases until) auto
  have n: "setDate z cur (js_add (getDate z cur) (Num 1)) = TimeClip (c + msPerDay)"
    unfolding c by (rule setDate_next)
  show "((z, ed, sel, until, setDate z cur (js_add (getDate z cur) (Num 1))),
         (z, ed, sel, until, cur))
        \<in> measure (\<lambda>(z, ed, sel, until, cur).
          case (until, cur) of (Num u, Num c) \<Rightarrow> nat (u - c + 1) | _ \<Rightarrow> 0)"
    unfolding n using cu by (simp add: c u TimeClip_def msPerDay_def)
qed

declare expand.simps [simp del]

text \<open>The expander on a body: the weekday selection with its default, and the two dates.\<close>

definition expander :: "int \<Rightarrow> (string \<times> jsval) list \<Rightarrow> (int \<times> int) list result" where
  "expander z ed =
     rbind (selected_days (field ed ''recurring_days'')) (\<lambda>sel.
     rbind (parseDateTime z (field ed ''series_start_date'') Undefined) (\<lambda>currentDate.
     rbind (parseDateTime z (field ed ''recur_until'') (Str ''23:59'')) (\<lambda>until.
       expand z ed (if length sel = 0 then map Num [0, 1, 2, 3, 4, 5, 6] else sel)
         until currentDate)))"

lemma series_rows_Nil [simp]: "series_rows z gen sid ed h mi dur n [] = []"
  by (simp add: series_rows_def series_instances_def)

lemma series_rows_Cons [simp]:
  "series_rows z gen sid ed h mi dur n (d # ds) =
     insert_row gen sid ed n (instance_start z h mi d) (instance_start z h mi d + dur * 60000)
     # series_rows z gen sid ed h mi dur (Suc n) ds"
  by (simp add: series_rows_def series_instances_def)

text \<open>
  The time from the start to the end of a row written by the expansion, in milliseconds,
  and the pairs of start and end of the rows of a series, in the order of the table.
\<close>

definition duration_ms :: "event_row \<Rightarrow> int option" where
  "duration_ms r = (case (dtstart r, dtend r) of (SqlTime s, SqlTime e) \<Rightarrow> Some (e - s) | _ \<Rightarrow> None)"

definition series_pairs :: "string \<Rightarrow> event_row list \<Rightarrow> (sqlval \<times> sqlval) list" where
  "series_pairs sid rows =
     map (\<lambda>r. (dtstart r, dtend r)) (filter (\<lambda>r. series_id r = SqlText sid) rows)"

text \<open>
  The row that a body describes by itself, for the single-event update: every column
  other than \<^verbatim>\<open>uid\<close> is read from the body and from nothing else. A property that is
  left out gives NULL; in the columns written with \<^verbatim>\<open>||\<close> a property that is left out or
  falsy gives the default (NULL, or false for \<^verbatim>\<open>is_recurring\<close>); \<^verbatim>\<open>recurring_days\<close>
  holds the JSON text of a truthy property and NULL otherwise.
\<close>

definition body_value :: "(string \<times> jsval) list \<Rightarrow> string \<Rightarrow> sqlval" where
  "body_value ed k = (case map_of ed k of None \<Rightarrow> SqlNull | Some v \<Rightarrow> to_sql v)"

definition body_value_or :: "(string \<times> jsval) list \<Rightarrow> string \<Rightarrow> sqlval \<Rightarrow> sqlval" where
  "body_value_or ed k dflt =
     (case map_of ed k of None \<Rightarrow> dflt | Some v \<Rightarrow> if truthy v then to_sql v else dflt)"

definition body_json :: "(string \<times> jsval) list \<Rightarrow> string \<Rightarrow> sqlval" where
  "body_json ed k =
     (case map_of ed k of None \<Rightarrow> SqlNull | Some v \<Rightarrow> if truthy v then SqlJson v else SqlNull)"

definition body_row :: "string \<Rightarrow> (string \<times> jsval) list \<Rightarrow> event_row" where
  "body_row u ed =
     \<lparr>uid = SqlText u,
      summary = body_value ed ''summary'',
      ev_type = body_value ed ''type'',
      dtstart = body_value ed ''dtstart'',
      dtend = body_value ed ''dtend'',
      description = body_value_or ed ''description'' SqlNull,
      is_recurring = body_value_or ed ''is_recurring'' (SqlBool False),
      recurring_days = body_json ed ''recurring_days'',
      series_id = body_value_or ed ''series_id'' SqlNull,
      recur_until = body_value_or ed ''recur_until'' SqlNull,
      series_start_date = body_value_or ed ''series_start_date'' SqlNull\<rparr>"

text \<open>
  A malformed date string: one of the three parts that \<open>parseDateTime\<close> reads is not
  numeric. A malformed time string: its hour or its minute is not numeric. (Parts outside
  the fragment of \<open>Number_js\<close> are excluded.)
\<close>

definition date_parts :: "string \<Rightarrow> string list" where
  "date_parts ds = split_on CHR ''-'' (case split_on CHR ''T'' ds of [] \<Rightarrow> [] | p # _ \<Rightarrow> p)"

definition malformed_date :: "string \<Rightarrow> bool" where
  "malformed_date ds =
     (let cs = map (component (date_parts ds)) [0, 1, 2]
      in Ok NaN \<in> set cs \<and> list_all (\<lambda>c. c \<noteq> Untracked) cs)"

definition malformed_time :: "string \<Rightarrow> bool" where
  "malformed_time ts =
     (let cs = map (component (split_on CHR '':'' ts)) [0, 1]
      in Ok NaN \<in> set cs \<and> list_all (\<lambda>c. c \<noteq> Untracked) cs)"

text \<open>
  The substring match of the specification: \<open>contains_ci q s\<close> holds when \<open>q\<close> occurs in
  \<open>s\<close>, letters compared without regard to case.
\<close>

fun starts_with :: "string \<Rightarrow> string \<Rightarrow> bool" where
  "starts_with [] s = True"
| "starts_with (q # qs) [] = False"
| "starts_with (q # qs) (c # cs) = (q = c \<and> starts_with qs cs)"

fun contains :: "string \<Rightarrow> string \<Rightarrow> bool" where
  "contains q [] = (q = [])"
| "contains q (c # cs) = (starts_with q (c # cs) \<or> contains q cs)"

definition contains_ci :: "string \<Rightarrow> string \<Rightarrow> bool" where
  "contains_ci q s = contains (map lower q) (map lower s)"

section \<open>Example data\<close>

text \<open>
  A table with two rows of the series \<^verbatim>\<open>s1\<close> and one row of no series, and the body of
  the first scenario of the specification (Monday, Wednesday and Friday of the week of
  2024-01-01, at 09:00 for 60 minutes) with its variations.
\<close>

definition row0 :: "string \<Rightarrow> string \<Rightarrow> sqlval \<Rightarrow> event_row" where
  "row0 u s sid =
     \<lparr>uid = SqlText u, summary = SqlText s, ev_type = SqlText ''walk'',
      dtstart = SqlText ''2024-01-01T09:00:00.000Z'', dtend = SqlText ''2024-01-01T10:00:00.000Z'',
      description = SqlText ''bring treats'', is_recurring = SqlBool True,
      recurring_days = SqlJson (Obj [(''1'', Bool True)]), series_id = sid,
      recur_until = SqlText ''2024-01-07'', series_start_date = SqlText ''2024-01-01''\<rparr>"

definition ed1 :: "(string \<times> jsval) list" where
  "ed1 = [(''summary'', Str ''Fluffy''), (''time'', Str ''09:00''), (''duration'', Number 60),
          (''recurring_days'',
             Obj [(''0'', Bool False), (''1'', Bool True), (''2'', Bool False), (''3'', Bool True),
                  (''4'', Bool False), (''5'', Bool True), (''6'', Bool False)]),
          (''recur_until'', Str ''2024-01-07''), (''series_start_date'', Str ''2024-01-01''),
          (''type'', Str ''walk'')]"

definition gen0 :: "nat \<Rightarrow> string" where
  "gen0 n = replicate n CHR ''x''"

definition rows0 :: "event_row list" where
  "rows0 = [row0 ''ev-1'' ''Fluffy'' (SqlText ''s1''), row0 ''ev-2'' ''Fluffy'' (SqlText ''s1''),
            row0 ''ev-3'' ''Spike'' SqlNull]"

text \<open>The body with the value of one property replaced.\<close>

definition with_field :: "string \<Rightarrow> jsval \<Rightarrow> (string \<times> jsval) list \<Rightarrow> (string \<times> jsval) list" where
  "with_field k v ed = map (\<lambda>(k', v'). if k' = k then (k', v) else (k', v')) ed"

definition ed_every_day :: "(string \<times> jsval) list" where
  "ed_every_day =
     with_field ''recurring_days''
       (Obj [(''0'', Bool False), (''1'', Bool False), (''2'', Bool False), (''3'', Bool False),
             (''4'', Bool False), (''5'', Bool False), (''6'', Bool False)])
       (with_field ''time'' (Str ''10:00'') (with_field ''duration'' (Number 15) ed1))"

definition ed_reversed :: "(string \<times> jsval) list" where
  "ed_reversed = with_field ''recur_until'' (Str ''2023-12-25'') ed1"

definition ed_meet :: "(string \<times> jsval) list" where
  "ed_meet = with_field ''type'' (Str ''meet-and-greet'') ed1"

definition gen1 :: "nat \<Rightarrow> string" where
  "gen1 n = replicate n CHR ''y''"

definition ed_tomorrow :: "(string \<times> jsval) list" where
  "ed_tomorrow = with_field ''series_start_date'' (Str ''tomorrow'') ed1"

definition ed_someday :: "(string \<times> jsval) list" where
  "ed_someday = with_field ''recur_until'' (Str ''2024-01-xx'') ed1"

definition ed_9am :: "(string \<times> jsval) list" where
  "ed_9am = with_field ''time'' (Str ''9am'') ed1"

text \<open>
  A body for the single-event update: four properties given, \<^verbatim>\<open>description\<close> empty,
  \<^verbatim>\<open>recur_until\<close> null, the others left out.
\<close>

definition ed_patch :: "(string \<times> jsval) list" where
  "ed_patch = [(''summary'', Str ''Rex''), (''type'', Str ''boarding''),
               (''dtstart'', Str ''2024-02-01T09:00:00.000Z''),
               (''dtend'', Str ''2024-02-01T10:00:00.000Z''),
               (''description'', Str ''''), (''recur_until'', Null)]"

definition pets :: "event_row list" where
  "pets = [row0 ''ev-1'' ''Fluffy'' SqlNull, row0 ''ev-2'' ''Flash'' SqlNull,
           row0 ''ev-3'' ''Spike'' SqlNull, row0 ''ev-4'' ''Flash'' SqlNull]"

section \<open>Properties of the calendar\<close>

lemma div_bounds:
  fixes a c :: int
  assumes "0 < c"
  shows "c * (a div c) \<le> a" and "a < c * (a div c) + c"
proof -
  have "a = c * (a div c) + a mod c" by simp
  moreover have "0 \<le> a mod c" "a mod c < c" using assms by simp_all
  ultimately show "c * (a div c) \<le> a" and "a < c * (a div c) + c" by linarith+
qed

lemma div_succ:
  fixes a c :: int
  assumes "0 < c"
  shows "(a + 1) div c = a div c + (if (a + 1) mod c = 0 then 1 else 0)"
proof -
  define q where "q = a div c"
  define r where "r = a mod c"
  have f: "a = c * q + r" by (simp add: q_def r_def)
  have m: "0 \<le> r" "r < c" using assms by (simp_all add: r_def)
  show ?thesis
  proof (cases "r + 1 = c")
    case True
    have e: "a + 1 = c * (q + 1) + 0" using f True by (simp add: algebra_simps)
    have "(a + 1) div c = q + 1" by (rule int_div_pos_eq[OF e]) (use assms in simp_all)
    moreover have "(a + 1) mod c = 0" by (rule int_mod_pos_eq[OF e]) (use assms in simp_all)
    ultimately show ?thesis by (simp add: q_def)
  next
    case False
    have e: "a + 1 = c * q + (r + 1)" using f by simp
    have lt: "r + 1 < c" using False m by linarith
    have "(a + 1) div c = q" by (rule int_div_pos_eq[OF e]) (use m lt in simp_all)
    moreover have "(a + 1) mod c = r + 1" by (rule int_mod_pos_eq[OF e]) (use m lt in simp_all)
    ultimately show ?thesis using m by (simp add: q_def)
  qed
qed

lemma mod_shift:
  fixes y :: int
  shows "(y - 1968) mod 4 = y mod 4" "(y - 1900) mod 100 = y mod 100" "(y - 1600) mod 400 = y mod 400"
proof -
  have "(y - 1968) mod 4 = (y - 1968 mod 4) mod 4" by (simp only: mod_diff_right_eq)
  then show "(y - 1968) mod 4 = y mod 4" by simp
  have "(y - 1900) mod 100 = (y - 1900 mod 100) mod 100" by (simp only: mod_diff_right_eq)
  then show "(y - 1900) mod 100 = y mod 100" by simp
  have "(y - 1600) mod 400 = (y - 1600 mod 400) mod 400" by (simp only: mod_diff_right_eq)
  then show "(y - 1600) mod 400 = y mod 400" by simp
qed

lemma mod_400_100: "(y::int) mod 400 = 0 \<Longrightarrow> y mod 100 = 0"
proof -
  assume "y mod 400 = 0"
  then have "400 dvd y" by (simp add: dvd_eq_mod_eq_0)
  moreover have "(100::int) dvd 400" by simp
  ultimately have "100 dvd y" by (rule dvd_trans[rotated])
  then show ?thesis by (simp add: dvd_eq_mod_eq_0)
qed

lemma mod_100_4: "(y::int) mod 100 = 0 \<Longrightarrow> y mod 4 = 0"
proof -
  assume "y mod 100 = 0"
  then have "100 dvd y" by (simp add: dvd_eq_mod_eq_0)
  moreover have "(4::int) dvd 100" by simp
  ultimately have "4 dvd y" by (rule dvd_trans[rotated])
  then show ?thesis by (simp add: dvd_eq_mod_eq_0)
qed

lemma DayFromYear_step: "DayFromYear (y + 1) = DayFromYear y + DaysInYear y"
proof -
  have a: "(y + 1 - 1969) div 4 = (y - 1969) div 4 + (if y mod 4 = 0 then 1 else 0)"
    using div_succ[of 4 "y - 1969"] mod_shift(1)[of y] by (simp add: algebra_simps)
  have b: "(y + 1 - 1901) div 100 = (y - 1901) div 100 + (if y mod 100 = 0 then 1 else 0)"
    using div_succ[of 100 "y - 1901"] mod_shift(2)[of y] by (simp add: algebra_simps)
  have c: "(y + 1 - 1601) div 400 = (y - 1601) div 400 + (if y mod 400 = 0 then 1 else 0)"
    using div_succ[of 400 "y - 1601"] mod_shift(3)[of y] by (simp add: algebra_simps)
  show ?thesis
    unfolding DayFromYear_def DaysInYear_def InLeapYear_def a b c
    using mod_400_100[of y] mod_100_4[of y] by (simp split: if_splits)
qed

lemma DayFromYear_bounds:
  "400 * DayFromYear y \<le> 146097 * (y - 1970) + 600"
  "146097 * (y - 1970) - 610 \<le> 400 * DayFromYear y"
proof -
  define a where "a = (y - 1969) div 4"
  define b where "b = (y - 1901) div 100"
  define c where "c = (y - 1601) div 400"
  have A: "4 * a \<le> y - 1969" "y - 1969 < 4 * a + 4"
    unfolding a_def by (rule div_bounds; simp)+
  have B: "100 * b \<le> y - 1901" "y - 1901 < 100 * b + 100"
    unfolding b_def by (rule div_bounds; simp)+
  have C: "400 * c \<le> y - 1601" "y - 1601 < 400 * c + 400"
    unfolding c_def by (rule div_bounds; simp)+
  have D: "DayFromYear y = 365 * (y - 1970) + a - b + c"
    by (simp add: DayFromYear_def a_def b_def c_def)
  have "400 * (365 * (y - 1970) + a - b + c) \<le> 146097 * (y - 1970) + 600"
    using A B C by (simp add: algebra_simps)
  then show "400 * DayFromYear y \<le> 146097 * (y - 1970) + 600"
    unfolding D .
  have "146097 * (y - 1970) - 610 \<le> 400 * (365 * (y - 1970) + a - b + c)"
    using A B C by (simp add: algebra_simps)
  then show "146097 * (y - 1970) - 610 \<le> 400 * DayFromYear y"
    unfolding D .
qed

lemma YearFromDay_bracket:
  "DayFromYear (YearFromDay d) \<le> d \<and> d < DayFromYear (YearFromDay d + 1)"
proof -
  define y where "y = 1970 + (400 * d) div 146097"
  have q: "146097 * (y - 1970) \<le> 400 * d" "400 * d < 146097 * (y - 1970) + 146097"
    using div_bounds[of 146097 "400 * d"] by (simp_all add: y_def)
  have "400 * DayFromYear (y - 1) \<le> 400 * d"
    using q DayFromYear_bounds(1)[of "y - 1"] by (simp add: algebra_simps)
  then have lo: "DayFromYear (y - 1) \<le> d" by simp
  have "400 * d < 400 * DayFromYear (y + 2)"
    using q DayFromYear_bounds(2)[of "y + 2"] by (simp add: algebra_simps)
  then have hi: "d < DayFromYear (y + 1 + 1)" by (simp add: add.assoc)
  have yd: "YearFromDay d = (if DayFromYear (y + 1) \<le> d then y + 1
         else if DayFromYear y \<le> d then y else y - 1)"
    by (simp add: YearFromDay_def y_def Let_def)
  show ?thesis
  proof (cases "DayFromYear (y + 1) \<le> d")
    case True
    then show ?thesis using hi by (simp add: yd)
  next
    case False
    show ?thesis
    proof (cases "DayFromYear y \<le> d")
      case True
      then show ?thesis using False by (simp add: yd)
    next
      case F2: False
      then show ?thesis using False lo by (simp add: yd)
    qed
  qed
qed

lemma DayFromYear_mono_aux: "DayFromYear y \<le> DayFromYear (y + int n)"
proof (induction n)
  case 0
  show ?case by simp
next
  case (Suc n)
  have e: "y + int (Suc n) = (y + int n) + 1" by simp
  have "0 \<le> DaysInYear (y + int n)" by (simp add: DaysInYear_def)
  then show ?case unfolding e DayFromYear_step using Suc by linarith
qed

lemma DayFromYear_mono: "y \<le> z \<Longrightarrow> DayFromYear y \<le> DayFromYear z"
  using DayFromYear_mono_aux[of y "nat (z - y)"] by simp

text \<open>YearFromDay is the largest year that starts on or before the day.\<close>

lemma YearFromDay_largest: "DayFromYear y \<le> d \<longleftrightarrow> y \<le> YearFromDay d"
proof
  assume a: "DayFromYear y \<le> d"
  show "y \<le> YearFromDay d"
  proof (rule ccontr)
    assume "\<not> y \<le> YearFromDay d"
    then have "YearFromDay d + 1 \<le> y" by simp
    then have "DayFromYear (YearFromDay d + 1) \<le> DayFromYear y" by (rule DayFromYear_mono)
    then show False using a YearFromDay_bracket[of d] by linarith
  qed
next
  assume "y \<le> YearFromDay d"
  then have "DayFromYear y \<le> DayFromYear (YearFromDay d)" by (rule DayFromYear_mono)
  then show "DayFromYear y \<le> d" using YearFromDay_bracket[of d] by linarith
qed

lemma DayWithinYear_range:
  "0 \<le> DayWithinYear t" "DayWithinYear t < DaysInYear (YearFromTime t)"
  using YearFromDay_bracket[of "Day t"] DayFromYear_step[of "YearFromTime t"]
  by (simp_all add: DayWithinYear_def YearFromTime_def)

lemma DateFromTime_lower: "1 \<le> DateFromTime t"
proof -
  have "0 \<le> DayWithinYear t" by (rule DayWithinYear_range)
  then show ?thesis
    unfolding DateFromTime_def MonthFromTime_def DaysBeforeMonth_def Let_def
    by (cases "InLeapYear (YearFromTime t)") simp_all
qed

lemma DateFromTime_upper: "DateFromTime t \<le> 366"
proof -
  have "0 \<le> DaysBeforeMonth (InLeapYear (YearFromTime t)) (MonthFromTime t)"
    by (simp add: DaysBeforeMonth_def Let_def)
  then show ?thesis
    using DayWithinYear_range(2)[of t]
    by (simp add: DateFromTime_def DaysInYear_def split: if_splits)
qed

section \<open>Parsing what was formatted\<close>

lemma is_digit_char_of: "(k::nat) < 10 \<Longrightarrow> is_digit (char_of (48 + k))"
  by (simp add: is_digit_def)

lemma digit_val_char_of: "(k::nat) < 10 \<Longrightarrow> digit_val (char_of (48 + k)) = int k"
  by (simp add: digit_val_def)

lemma nat_digits_digits: "list_all is_digit (nat_digits n) \<and> nat_digits n \<noteq> []"
proof (induction n rule: nat_digits.induct)
  case (1 n)
  show ?case
  proof (cases "n < 10")
    case True
    then show ?thesis by (simp add: nat_digits.simps[of n] is_digit_char_of)
  next
    case False
    then show ?thesis using 1 by (simp add: nat_digits.simps[of n] is_digit_char_of)
  qed
qed

lemma digits_val_snoc: "digits_val (s @ [c]) = 10 * digits_val s + digit_val c"
  by (simp add: digits_val_def)

lemma digits_val_nat_digits: "digits_val (nat_digits n) = int n"
proof (induction n rule: nat_digits.induct)
  case (1 n)
  show ?case
  proof (cases "n < 10")
    case True
    then show ?thesis
      by (simp add: nat_digits.simps[of n] digits_val_def digit_val_char_of)
  next
    case False
    have "int n = 10 * int (n div 10) + int (n mod 10)"
      by (metis mult_div_mod_eq of_nat_add of_nat_mult of_nat_numeral)
    then show ?thesis using False 1
      by (simp add: nat_digits.simps[of n] digits_val_snoc digit_val_char_of)
  qed
qed

lemma digits_not_space: "is_digit c \<Longrightarrow> \<not> is_space c"
  by (auto simp: is_digit_def is_space_def)

lemma trim_no_space:
  assumes "list_all (\<lambda>c. \<not> is_space c) s"
  shows "trim s = s"
proof (cases s)
  case Nil
  then show ?thesis by (simp add: trim_def)
next
  case (Cons a as)
  have 1: "dropWhile is_space s = s" using assms Cons by simp
  have "\<not> is_space (last s)" using assms Cons
    by (metis Ball_set last_in_set list.distinct(1))
  moreover have "hd (rev s) = last s" by (rule hd_rev)
  ultimately have "\<not> is_space (hd (rev s))" by simp
  then have 2: "dropWhile is_space (rev s) = rev s"
    by (simp add: dropWhile_eq_self_iff)
  show ?thesis by (simp add: trim_def 1 2)
qed

lemma strip_sign_digits: "list_all is_digit s \<Longrightarrow> strip_sign s = s"
  by (cases s) (auto simp: strip_sign_def is_digit_def)

lemma Number_js_digits:
  assumes d: "list_all is_digit s" and ne: "s \<noteq> []" and b: "digits_val s < 1000000000"
    and nn: "0 \<le> digits_val s"
  shows "Number_js s = Ok (Num (digits_val s))"
proof -
  have a: "list_all (\<lambda>c. (of_char c :: nat) < 128) s"
    using d by (induction s) (auto simp: is_digit_def)
  have "list_all (\<lambda>c. \<not> is_space c) s"
    using d by (induction s) (auto simp: digits_not_space)
  then have t: "trim s = s" by (rule trim_no_space)
  have i: "is_int_literal s" using d ne by (simp add: is_int_literal_def strip_sign_digits)
  obtain c r where s: "s = c # r" using ne by (cases s) auto
  have "c \<noteq> CHR ''-''" using d s by (auto simp: is_digit_def)
  then have v: "int_literal_val s = digits_val s"
    using strip_sign_digits[OF d] s by (simp add: int_literal_val_def)
  show ?thesis
    using a t i v ne b nn by (simp add: Number_js_def Let_def tracked_def)
qed

lemma Number_js_nat_digits:
  "n < 1000000000 \<Longrightarrow> Number_js (nat_digits n) = Ok (Num (int n))"
  using Number_js_digits[of "nat_digits n"] nat_digits_digits[of n]
  by (simp add: digits_val_nat_digits)

lemma Number_js_padStart2:
  "n < 1000000000 \<Longrightarrow> Number_js (padStart2 (nat_digits n)) = Ok (Num (int n))"
proof -
  assume n: "n < 1000000000"
  obtain k where p: "padStart2 (nat_digits n) = replicate k CHR ''0'' @ nat_digits n"
    by (auto simp: padStart2_def)
  have z: "is_digit CHR ''0''" by (simp add: is_digit_def)
  have d: "list_all is_digit (replicate k CHR ''0'' @ nat_digits n)"
    using nat_digits_digits[of n] z by (auto simp: list_all_iff)
  have v: "digits_val (replicate k CHR ''0'' @ s) = digits_val s" for s
    by (induction k) (simp_all add: digits_val_def digit_val_def)
  show ?thesis
    unfolding p using Number_js_digits[OF d] nat_digits_digits[of n] n
    by (simp add: v digits_val_nat_digits)
qed

lemma split_on_none: "c \<notin> set a \<Longrightarrow> split_on c a = [a]"
  by (induction a) auto

lemma split_on_append: "c \<notin> set a \<Longrightarrow> split_on c (a @ c # b) = a # split_on c b"
  by (induction a) auto

lemma digits_no_char:
  "list_all is_digit s \<Longrightarrow> \<not> is_digit c \<Longrightarrow> c \<notin> set s"
  by (auto simp: list_all_iff)

lemma padStart2_digits: "list_all is_digit s \<Longrightarrow> list_all is_digit (padStart2 s)"
  by (auto simp: padStart2_def list_all_iff is_digit_def)

lemma split_date_string:
  assumes "list_all is_digit y" "list_all is_digit m" "list_all is_digit d"
  shows "split_on CHR ''T'' (y @ CHR ''-'' # m @ CHR ''-'' # d) = [y @ CHR ''-'' # m @ CHR ''-'' # d]"
    and "split_on CHR ''-'' (y @ CHR ''-'' # m @ CHR ''-'' # d) = [y, m, d]"
proof -
  have nd: "\<not> is_digit CHR ''T''" "\<not> is_digit CHR ''-''"
    by (simp_all add: is_digit_def)
  have "CHR ''T'' \<notin> set (y @ CHR ''-'' # m @ CHR ''-'' # d)"
    using assms nd(1) by (auto dest: digits_no_char)
  then show "split_on CHR ''T'' (y @ CHR ''-'' # m @ CHR ''-'' # d) = [y @ CHR ''-'' # m @ CHR ''-'' # d]"
    by (rule split_on_none)
  have y: "CHR ''-'' \<notin> set y" and m: "CHR ''-'' \<notin> set m" and d: "CHR ''-'' \<notin> set d"
    using assms nd(2) by (auto dest: digits_no_char)
  have "split_on CHR ''-'' (y @ CHR ''-'' # (m @ CHR ''-'' # d)) = y # split_on CHR ''-'' (m @ CHR ''-'' # d)"
    using y by (rule split_on_append)
  also have "split_on CHR ''-'' (m @ CHR ''-'' # d) = m # split_on CHR ''-'' d"
    using m by (rule split_on_append)
  also have "split_on CHR ''-'' d = [d]"
    using d by (rule split_on_none)
  finally show "split_on CHR ''-'' (y @ CHR ''-'' # m @ CHR ''-'' # d) = [y, m, d]"
    by simp
qed

lemma year_in_range:
  assumes "DayFromYear 100 \<le> Day t" and "Day t < DayFromYear 10000"
  shows "100 \<le> YearFromTime t" and "YearFromTime t < 10000"
proof -
  show "100 \<le> YearFromTime t"
    using assms(1) by (simp add: YearFromTime_def YearFromDay_largest)
  have "\<not> 10000 \<le> YearFromDay (Day t)"
    using assms(2) YearFromDay_largest[of 10000 "Day t"] by simp
  then show "YearFromTime t < 10000"
    by (simp add: YearFromTime_def)
qed

lemma formatDateToYYYYMMDD_valid:
  assumes "0 \<le> YearFromTime (t + z)"
  shows "formatDateToYYYYMMDD z (Num t) =
           nat_digits (nat (YearFromTime (t + z))) @ ''-'' @
           padStart2 (nat_digits (nat (MonthFromTime (t + z) + 1))) @ ''-'' @
           padStart2 (nat_digits (nat (DateFromTime (t + z))))"
proof -
  have m: "0 \<le> MonthFromTime (t + z) + 1" using MonthFromTime_range[of "t + z"] by simp
  have d: "0 \<le> DateFromTime (t + z)" using DateFromTime_lower[of "t + z"] by simp
  show ?thesis
    using assms m d
    by (simp add: formatDateToYYYYMMDD_def getFullYear_def getMonth_def getDate_def
        LocalTime_def num_to_string_def Let_def)
qed

lemma parse_format_any:
  assumes lo: "DayFromYear 100 \<le> Day (t + z)" and hi: "Day (t + z) < DayFromYear 10000"
    and tv: "(case tv of Undefined \<Rightarrow> Str ''00:00'' | v \<Rightarrow> v) = Str ts"
    and h: "component (split_on CHR '':'' ts) 0 = Ok hv"
    and mi: "component (split_on CHR '':'' ts) 1 = Ok mv"
  shows "parseDateTime z (Str (formatDateToYYYYMMDD z (Num t))) tv =
           Ok (new_Date z (Num (YearFromTime (t + z))) (Num (MonthFromTime (t + z)))
                 (Num (DateFromTime (t + z))) hv mv)"
proof -
  define Y where "Y = YearFromTime (t + z)"
  define M where "M = MonthFromTime (t + z)"
  define D where "D = DateFromTime (t + z)"
  have Y: "100 \<le> Y" "Y < 10000"
    using year_in_range[OF lo hi] by (simp_all add: Y_def)
  have M: "0 \<le> M" "M \<le> 11" using MonthFromTime_range[of "t + z"] by (simp_all add: M_def)
  have D: "1 \<le> D" "D \<le> 366"
    using DateFromTime_lower[of "t + z"] DateFromTime_upper[of "t + z"] by (simp_all add: D_def)
  define ys where "ys = nat_digits (nat Y)"
  define ms where "ms = padStart2 (nat_digits (nat (M + 1)))"
  define ds where "ds = padStart2 (nat_digits (nat D))"
  have f: "formatDateToYYYYMMDD z (Num t) = ys @ CHR ''-'' # ms @ CHR ''-'' # ds"
    using formatDateToYYYYMMDD_valid[of t z] Y
    by (simp add: Y_def M_def D_def ys_def ms_def ds_def)
  have dg: "list_all is_digit ys" "list_all is_digit ms" "list_all is_digit ds"
    using nat_digits_digits by (simp_all add: ys_def ms_def ds_def padStart2_digits)
  have ny: "Number_js ys = Ok (Num Y)"
    unfolding ys_def using Number_js_nat_digits[of "nat Y"] Y by simp
  have nm: "Number_js ms = Ok (Num (M + 1))"
    unfolding ms_def using Number_js_padStart2[of "nat (M + 1)"] M by simp
  have nd: "Number_js ds = Ok (Num D)"
    unfolding ds_def using Number_js_padStart2[of "nat D"] D by simp
  have c: "component [ys, ms, ds] 0 = Ok (Num Y)"
    "component [ys, ms, ds] 2 = Ok (Num D)"
    by (simp_all add: component_def ny nd)
  have c1: "component [ys, ms, ds] (Suc 0) = Ok (Num (M + 1))"
    by (simp add: component_def nm)
  have mi1: "component (split_on CHR '':'' ts) (Suc 0) = Ok mv"
    using mi by simp
  show ?thesis
    unfolding parseDateTime_def f Y_def[symmetric] M_def[symmetric] D_def[symmetric]
    by (simp add: split_date_string[OF dg] c c1 tv h mi1 Let_def)
qed

lemma parse_format:
  assumes lo: "DayFromYear 100 \<le> Day (t + z)" and hi: "Day (t + z) < DayFromYear 10000"
    and tv: "(case tv of Undefined \<Rightarrow> Str ''00:00'' | v \<Rightarrow> v) = Str ts"
    and h: "component (split_on CHR '':'' ts) 0 = Ok (Num h)"
    and mi: "component (split_on CHR '':'' ts) 1 = Ok (Num mi)"
  shows "parseDateTime z (Str (formatDateToYYYYMMDD z (Num t))) tv =
           Ok (TimeClip (UTC z (MakeDate (Day (t + z)) (MakeTime h mi))))"
proof -
  have yr: "\<not> (0 \<le> YearFromTime (t + z) \<and> YearFromTime (t + z) \<le> 99)"
    using year_in_range(1)[OF lo hi] by simp
  have day: "MakeDay (YearFromTime (t + z)) (MonthFromTime (t + z)) (DateFromTime (t + z)) =
               Day (t + z)"
    by (simp add: MakeDay_of_fields)
  show ?thesis
    unfolding parse_format_any[OF lo hi tv h mi] by (simp add: Let_def yr day)
qed

section \<open>The loop, day by day\<close>

lemma tracked_Ok: "tracked n = Ok (Num m) \<Longrightarrow> m = n \<and> \<bar>m\<bar> < 1000000000"
  by (auto simp: tracked_def split: if_splits)

lemma Number_js_bound: "Number_js s = Ok (Num n) \<Longrightarrow> \<bar>n\<bar> < 1000000000"
  by (auto simp: Number_js_def Let_def split: if_splits dest: tracked_Ok)

lemma component_bound: "component ps i = Ok (Num n) \<Longrightarrow> \<bar>n\<bar> < 1000000000"
  by (auto simp: component_def split: if_splits dest: Number_js_bound)

lemma ToNumber_bound: "ToNumber v = Ok (Num n) \<Longrightarrow> \<bar>n\<bar> < 1000000000"
  by (cases v) (auto split: if_splits dest: Number_js_bound tracked_Ok)

lemma DayFromYear_100: "DayFromYear 100 = - 683003"
  by (simp add: DayFromYear_def)

lemma DayFromYear_10000: "DayFromYear 10000 = 2932897"
  by (simp add: DayFromYear_def)

lemma Day_mult: "Day (d * msPerDay) = d"
  by (simp add: Day_def msPerDay_def)

lemma getDay_midnight: "getDay z (Num (d * msPerDay - z)) = Num ((d + 4) mod 7)"
  by (simp add: getDay_def LocalTime_def WeekDay_def Day_mult)

lemma TimeClip_Num:
  assumes "- 8640000000000000 \<le> t \<and> t \<le> 8640000000000000"
  shows "TimeClip t = Num t"
proof -
  have "\<bar>t\<bar> \<le> 8640000000000000" using assms by (intro abs_leI) linarith+
  then have "\<not> \<bar>t\<bar> > 8640000000000000" by (simp only: not_less)
  then show ?thesis unfolding TimeClip_def by (simp only: if_False)
qed

text \<open>One pass of the loop body on the local midnight of day \<open>d\<close>.\<close>

lemma loop_body_day:
  assumes nf: "\<not> fault cx (qn st)"
    and lo: "DayFromYear 100 \<le> d" and hi: "d < DayFromYear 10000"
    and z: "\<bar>tza cx\<bar> \<le> msPerDay"
    and tv: "(case field (eventData cx) ''time'' of Undefined \<Rightarrow> Str ''00:00'' | v \<Rightarrow> v) = Str ts"
    and h: "component (split_on CHR '':'' ts) 0 = Ok (Num h)"
    and mi: "component (split_on CHR '':'' ts) 1 = Ok (Num mi)"
    and dur: "ToNumber (finalDuration (eventData cx)) = Ok (Num dur)"
  shows "loop_body cx (Num (d * msPerDay - tza cx)) st =
           Ok (if Num ((d + 4) mod 7) \<in> set (selectedDays cx)
               then st\<lparr>tbl := tbl st @ series_rows (tza cx) (uuid cx) (seriesId cx) (eventData cx) h mi dur (un st) [d],
                       qn := Suc (qn st), un := Suc (un st)\<rparr>
               else st)"
proof (cases "Num ((d + 4) mod 7) \<in> set (selectedDays cx)")
  case False
  then show ?thesis by (simp add: loop_body_def getDay_midnight)
next
  case True
  have D: "Day (d * msPerDay - tza cx + tza cx) = d" by (simp add: Day_mult)
  have bh: "\<bar>h\<bar> < 1000000000" using h by (rule component_bound)
  have bm: "\<bar>mi\<bar> < 1000000000" using mi by (rule component_bound)
  have bd: "\<bar>dur\<bar> < 1000000000" using dur by (rule ToNumber_bound)
  have bz: "\<bar>tza cx\<bar> \<le> 86400000" using z by (simp add: msPerDay_def)
  have dlo: "- 683003 \<le> d" and dhi: "d < 2932897"
    using lo hi by (simp_all add: DayFromYear_100 DayFromYear_10000)
  define s where "s = instance_start (tza cx) h mi d"
  have s: "s = d * 86400000 + (h * 3600000 + mi * 60000) - tza cx"
    by (simp add: s_def instance_start_def UTC_def MakeDate_def MakeTime_def msPerDay_def
        msPerHour_def msPerMinute_def)
  have "- 8640000000000000 \<le> s \<and> s \<le> 8640000000000000"
    using bh bm bz dlo dhi unfolding s by linarith
  then have cs: "TimeClip s = Num s"
    by (rule TimeClip_Num)
  have "- 8640000000000000 \<le> s + dur * 60000 \<and> s + dur * 60000 \<le> 8640000000000000"
    using bh bm bz bd dlo dhi unfolding s by linarith
  then have ce: "TimeClip (s + dur * 60000) = Num (s + dur * 60000)"
    by (rule TimeClip_Num)
  have p: "parseDateTime (tza cx) (Str (formatDateToYYYYMMDD (tza cx) (Num (d * msPerDay - tza cx))))
             (field (eventData cx) ''time'') = Ok (Num s)"
    using parse_format[of "d * msPerDay - tza cx" "tza cx", OF _ _ tv h mi] lo hi
    unfolding D by (simp add: s_def[symmetric] instance_start_def[symmetric] cs)
  show ?thesis
    using True nf
    by (simp add: loop_body_def getDay_midnight p dur new_Date_value_def cs ce toISOString_def
        query_def s_def[symmetric])
qed

lemma midnight_le_iff: "d * msPerDay - z \<le> t \<longleftrightarrow> d \<le> Day (t + z)"
proof -
  have b: "msPerDay * ((t + z) div msPerDay) \<le> t + z"
    "t + z < msPerDay * ((t + z) div msPerDay) + msPerDay"
    by (rule div_bounds; simp add: msPerDay_def)+
  show ?thesis
  proof
    assume "d * msPerDay - z \<le> t"
    then have "d * msPerDay < msPerDay * (Day (t + z) + 1)"
      using b(2) by (simp add: Day_def algebra_simps)
    then have "d < Day (t + z) + 1"
      by (simp add: msPerDay_def)
    then show "d \<le> Day (t + z)" by simp
  next
    assume "d \<le> Day (t + z)"
    then have "d * msPerDay \<le> Day (t + z) * msPerDay"
      by (simp add: msPerDay_def)
    then show "d * msPerDay - z \<le> t"
      using b(1) by (simp add: Day_def algebra_simps)
  qed
qed

lemma expected_days_rec:
  "d \<le> d1 \<Longrightarrow> expected_days d d1 sel =
     (if Num ((d + 4) mod 7) \<in> set sel then [d] else []) @ expected_days (d + 1) d1 sel"
  by (simp add: expected_days_def upto_rec1)

lemma expected_days_empty: "d1 < d \<Longrightarrow> expected_days d d1 sel = []"
  by (simp add: expected_days_def)

lemma series_loop_days:
  assumes nf: "\<forall>k. \<not> fault cx k"
    and u: "untilDate cx = Num t1"
    and hi: "Day (t1 + tza cx) < DayFromYear 10000"
    and z: "\<bar>tza cx\<bar> \<le> msPerDay"
    and tv: "(case field (eventData cx) ''time'' of Undefined \<Rightarrow> Str ''00:00'' | v \<Rightarrow> v) = Str ts"
    and h: "component (split_on CHR '':'' ts) 0 = Ok (Num h)"
    and mi: "component (split_on CHR '':'' ts) 1 = Ok (Num mi)"
    and dur: "ToNumber (finalDuration (eventData cx)) = Ok (Num dur)"
  shows "DayFromYear 100 \<le> d \<Longrightarrow> n = nat (Day (t1 + tza cx) + 1 - d) \<Longrightarrow>
         series_loop cx (Num (d * msPerDay - tza cx)) st =
           Ok (st\<lparr>tbl := tbl st @ series_rows (tza cx) (uuid cx) (seriesId cx) (eventData cx) h mi dur (un st)
                                  (expected_days d (Day (t1 + tza cx)) (selectedDays cx)),
                  qn := qn st + length (expected_days d (Day (t1 + tza cx)) (selectedDays cx)),
                  un := un st + length (expected_days d (Day (t1 + tza cx)) (selectedDays cx))\<rparr>)"
proof (induction n arbitrary: d st)
  case 0
  then have gt: "Day (t1 + tza cx) < d" by simp
  then have "\<not> js_le (Num (d * msPerDay - tza cx)) (untilDate cx)"
    by (simp add: u midnight_le_iff)
  then show ?case
    by (simp add: series_loop.simps[of cx "Num (d * msPerDay - tza cx)"] expected_days_empty[OF gt])
next
  case (Suc n)
  let ?d1 = "Day (t1 + tza cx)"
  let ?cur = "d * msPerDay - tza cx"
  have le: "d \<le> ?d1" using Suc.prems(2) by simp
  have dhi: "d < DayFromYear 10000" using le hi by simp
  have c: "js_le (Num ?cur) (untilDate cx)"
    using le by (simp add: u midnight_le_iff)
  have nfq: "\<not> fault cx (qn st)" using nf by simp
  define st' where "st' = (if Num ((d + 4) mod 7) \<in> set (selectedDays cx)
               then st\<lparr>tbl := tbl st @ series_rows (tza cx) (uuid cx) (seriesId cx) (eventData cx) h mi dur (un st) [d],
                       qn := Suc (qn st), un := Suc (un st)\<rparr>
               else st)"
  have b: "loop_body cx (Num ?cur) st = Ok st'"
    unfolding st'_def by (rule loop_body_day[OF nfq Suc.prems(1) dhi z tv h mi dur])
  have bz: "\<bar>tza cx\<bar> \<le> 86400000" using z by (simp add: msPerDay_def)
  have dlo: "- 683003 \<le> d" and dh: "d < 2932897"
    using Suc.prems(1) dhi by (simp_all add: DayFromYear_100 DayFromYear_10000)
  have "- 8640000000000000 \<le> ?cur + msPerDay \<and> ?cur + msPerDay \<le> 8640000000000000"
    using bz dlo dh unfolding msPerDay_def by linarith
  then have "TimeClip (?cur + msPerDay) = Num (?cur + msPerDay)"
    by (rule TimeClip_Num)
  then have nx: "setDate (tza cx) (Num ?cur) (js_add (getDate (tza cx) (Num ?cur)) (Num 1))
                  = Num ((d + 1) * msPerDay - tza cx)"
    by (simp add: setDate_next algebra_simps)
  have lo': "DayFromYear 100 \<le> d + 1" using Suc.prems(1) by simp
  have n': "n = nat (?d1 + 1 - (d + 1))" using Suc.prems(2) by simp
  have ih: "series_loop cx (Num ((d + 1) * msPerDay - tza cx)) st' =
           Ok (st'\<lparr>tbl := tbl st' @ series_rows (tza cx) (uuid cx) (seriesId cx) (eventData cx) h mi dur (un st')
                                  (expected_days (d + 1) ?d1 (selectedDays cx)),
                  qn := qn st' + length (expected_days (d + 1) ?d1 (selectedDays cx)),
                  un := un st' + length (expected_days (d + 1) ?d1 (selectedDays cx))\<rparr>)"
    by (rule Suc.IH[OF lo' n'])
  have "series_loop cx (Num ?cur) st = series_loop cx (Num ((d + 1) * msPerDay - tza cx)) st'"
    using c b nx by (simp add: series_loop.simps[of cx "Num ?cur"])
  also note ih
  finally show ?case
    unfolding expected_days_rec[OF le] st'_def by simp
qed

lemma time_0000:
  "component (split_on CHR '':'' ''00:00'') 0 = Ok (Num 0)"
  "component (split_on CHR '':'' ''00:00'') 1 = Ok (Num 0)"
  by code_simp+

lemma time_2359:
  "component (split_on CHR '':'' ''23:59'') 0 = Ok (Num 23)"
  "component (split_on CHR '':'' ''23:59'') 1 = Ok (Num 59)"
  by code_simp+

lemma rbind_Ok: "rbind r f = Ok v \<longleftrightarrow> (\<exists>x. r = Ok x \<and> f x = Ok v)"
  by (cases r) simp_all

text \<open>A date string that parses to a valid date: its parts and the day they make.\<close>

lemma parseDateTime_valid:
  assumes "parseDateTime z v tv = Ok (Num t)"
  obtains ts d h mi where
    "(case tv of Undefined \<Rightarrow> Str ''00:00'' | w \<Rightarrow> w) = Str ts"
    and "component (split_on CHR '':'' ts) 0 = Ok (Num h)"
    and "component (split_on CHR '':'' ts) 1 = Ok (Num mi)"
    and "TimeClip (UTC z (MakeDate d (MakeTime h mi))) = Num t"
    and "\<And>tv' ts' h' mi'.
           (case tv' of Undefined \<Rightarrow> Str ''00:00'' | w \<Rightarrow> w) = Str ts' \<Longrightarrow>
           component (split_on CHR '':'' ts') 0 = Ok (Num h') \<Longrightarrow>
           component (split_on CHR '':'' ts') 1 = Ok (Num mi') \<Longrightarrow>
           parseDateTime z v tv' = Ok (TimeClip (UTC z (MakeDate d (MakeTime h' mi'))))"
proof -
  obtain ds where v: "v = Str ds"
    using assms by (cases v) (simp_all add: parseDateTime_def)
  let ?dparts = "split_on CHR ''-'' (case split_on CHR ''T'' ds of [] \<Rightarrow> [] | p # _ \<Rightarrow> p)"
  obtain ts where ts: "(case tv of Undefined \<Rightarrow> Str ''00:00'' | w \<Rightarrow> w) = Str ts"
    using assms unfolding v parseDateTime_def Let_def
    by (cases "case tv of Undefined \<Rightarrow> Str ''00:00'' | w \<Rightarrow> w")
       (auto simp: rbind_Ok)
  from assms have "\<exists>year month day hours minutes.
       component ?dparts 0 = Ok year \<and> component ?dparts 1 = Ok month \<and>
       component ?dparts 2 = Ok day \<and>
       component (split_on CHR '':'' ts) 0 = Ok hours \<and>
       component (split_on CHR '':'' ts) 1 = Ok minutes \<and>
       (if isNaN year \<or> isNaN month \<or> isNaN day then Ok NaN
            else Ok (new_Date z year (js_sub month (Num 1)) day hours minutes)) = Ok (Num t)"
    unfolding v parseDateTime_def Let_def
    by (simp add: rbind_Ok ts)
  then obtain year month day hours minutes where
    c: "component ?dparts 0 = Ok year" "component ?dparts 1 = Ok month"
       "component ?dparts 2 = Ok day"
       "component (split_on CHR '':'' ts) 0 = Ok hours"
       "component (split_on CHR '':'' ts) 1 = Ok minutes"
    and r: "(if isNaN year \<or> isNaN month \<or> isNaN day then Ok NaN
            else Ok (new_Date z year (js_sub month (Num 1)) day hours minutes)) = Ok (Num t)"
    by blast
  from r obtain y m d h mi where
    n: "year = Num y" "month = Num m" "day = Num d" "hours = Num h" "minutes = Num mi"
    by (cases year; cases month; cases day; cases hours; cases minutes) (simp_all split: if_splits)
  define yr where "yr = (if 0 \<le> y \<and> y \<le> 99 then 1900 + y else y)"
  have t: "TimeClip (UTC z (MakeDate (MakeDay yr (m - 1) d) (MakeTime h mi))) = Num t"
    using r by (simp add: n yr_def Let_def)
  have g: "parseDateTime z v tv' =
             Ok (TimeClip (UTC z (MakeDate (MakeDay yr (m - 1) d) (MakeTime h' mi'))))"
    if "(case tv' of Undefined \<Rightarrow> Str ''00:00'' | w \<Rightarrow> w) = Str ts'"
      and "component (split_on CHR '':'' ts') 0 = Ok (Num h')"
      and "component (split_on CHR '':'' ts') 1 = Ok (Num mi')"
    for tv' ts' h' mi'
    unfolding v parseDateTime_def Let_def
    using that c(1,2,3) by (simp add: n yr_def Let_def)
  show thesis
    using ts c(4,5)[unfolded n] t g by (rule that)
qed

lemma TimeClip_eq_Num: "TimeClip x = Num t \<Longrightarrow> x = t"
  by (simp add: TimeClip_def split: if_splits)

text \<open>A date that parses with the default time is the local midnight of its day.\<close>

lemma parseDateTime_midnight:
  assumes "parseDateTime z v Undefined = Ok (Num t)"
  shows "t = Day (t + z) * msPerDay - z \<and>
         (\<forall>tv ts h mi.
           (case tv of Undefined \<Rightarrow> Str ''00:00'' | w \<Rightarrow> w) = Str ts \<longrightarrow>
           component (split_on CHR '':'' ts) 0 = Ok (Num h) \<longrightarrow>
           component (split_on CHR '':'' ts) 1 = Ok (Num mi) \<longrightarrow>
           parseDateTime z v tv = Ok (TimeClip (UTC z (MakeDate (Day (t + z)) (MakeTime h mi)))))"
proof (rule parseDateTime_valid[OF assms])
  fix ts :: string and d h mi :: int
  assume ts: "(case Undefined of Undefined \<Rightarrow> Str ''00:00'' | w \<Rightarrow> w) = Str ts"
    and h: "component (split_on CHR '':'' ts) 0 = Ok (Num h)"
    and mi: "component (split_on CHR '':'' ts) 1 = Ok (Num mi)"
    and t: "TimeClip (UTC z (MakeDate d (MakeTime h mi))) = Num t"
    and g: "\<And>tv' ts' h' mi'.
              (case tv' of Undefined \<Rightarrow> Str ''00:00'' | w \<Rightarrow> w) = Str ts' \<Longrightarrow>
              component (split_on CHR '':'' ts') 0 = Ok (Num h') \<Longrightarrow>
              component (split_on CHR '':'' ts') 1 = Ok (Num mi') \<Longrightarrow>
              parseDateTime z v tv' = Ok (TimeClip (UTC z (MakeDate d (MakeTime h' mi'))))"
  have "ts = ''00:00''" using ts by simp
  then have "h = 0" "mi = 0" using h mi time_0000 by simp_all
  then have "UTC z (MakeDate d (MakeTime 0 0)) = t"
    using t by (auto dest: TimeClip_eq_Num)
  then have e: "t = d * msPerDay - z"
    by (simp add: UTC_def MakeDate_def MakeTime_def)
  then have d: "Day (t + z) = d" by (simp add: Day_mult)
  show "t = Day (t + z) * msPerDay - z \<and>
         (\<forall>tv ts h mi.
           (case tv of Undefined \<Rightarrow> Str ''00:00'' | w \<Rightarrow> w) = Str ts \<longrightarrow>
           component (split_on CHR '':'' ts) 0 = Ok (Num h) \<longrightarrow>
           component (split_on CHR '':'' ts) 1 = Ok (Num mi) \<longrightarrow>
           parseDateTime z v tv = Ok (TimeClip (UTC z (MakeDate (Day (t + z)) (MakeTime h mi)))))"
    unfolding d using e g by simp
qed

lemma Day_within: "0 \<le> r \<Longrightarrow> r < msPerDay \<Longrightarrow> Day (d * msPerDay + r) = d"
proof -
  assume r: "0 \<le> r" "r < msPerDay"
  have "d * msPerDay + r = msPerDay * d + r" by simp
  then show ?thesis
    unfolding Day_def using r by (intro int_div_pos_eq[of _ _ d r]) simp_all
qed

lemma replace_series_wellformed:
  assumes nf: "\<forall>k. \<not> flt k"
    and sel: "selected_days (field ed ''recurring_days'') = Ok sel"
    and s: "parseDateTime z (field ed ''series_start_date'') Undefined = Ok (Num t0)"
    and u: "parseDateTime z (field ed ''recur_until'') Undefined = Ok (Num t1)"
    and lo: "DayFromYear 100 \<le> Day (t0 + z)"
    and hi: "Day (t1 + z) < DayFromYear 10000"
    and z: "\<bar>z\<bar> \<le> msPerDay"
    and tv: "(case field ed ''time'' of Undefined \<Rightarrow> Str ''00:00'' | v \<Rightarrow> v) = Str ts"
    and h: "component (split_on CHR '':'' ts) 0 = Ok (Num h)"
    and mi: "component (split_on CHR '':'' ts) 1 = Ok (Num mi)"
    and dur: "ToNumber (finalDuration ed) = Ok (Num dur)"
  shows "\<exists>st. replace_series z gen flt sid ed rows = Ok st \<and>
           tbl st = filter (\<lambda>r. series_id r \<noteq> SqlText sid) rows @
             series_rows z gen sid ed h mi dur 0
               (expected_days (Day (t0 + z)) (Day (t1 + z))
                  (if sel = [] then map Num [0, 1, 2, 3, 4, 5, 6] else sel))"
proof -
  let ?d0 = "Day (t0 + z)" and ?d1 = "Day (t1 + z)"
  define sel' where "sel' = (if length sel = 0 then map Num [0, 1, 2, 3, 4, 5, 6] else sel)"
  have t0: "t0 = ?d0 * msPerDay - z" using parseDateTime_midnight[OF s] by simp
  have t1: "t1 = ?d1 * msPerDay - z" using parseDateTime_midnight[OF u] by simp
  define tu where "tu = UTC z (MakeDate ?d1 (MakeTime 23 59))"
  have tu: "tu = ?d1 * msPerDay + 86340000 - z"
    by (simp add: tu_def UTC_def MakeDate_def MakeTime_def msPerHour_def msPerMinute_def)
  have bz: "\<bar>z\<bar> \<le> 86400000" using z by (simp add: msPerDay_def)
  have d1hi: "?d1 < 2932897" using hi by (simp add: DayFromYear_10000)
  have d0lo: "- 683003 \<le> ?d0" using lo by (simp add: DayFromYear_100)
  have "- 8640000000000000 \<le> tu \<and> tu \<le> 8640000000000000"
  proof (cases "?d0 \<le> ?d1")
    case True
    then show ?thesis using bz d1hi d0lo unfolding tu msPerDay_def by linarith
  next
    case False
    have "\<bar>t1\<bar> \<le> 8640000000000000"
    proof (rule parseDateTime_valid[OF u])
      fix ts d h mi
      assume "TimeClip (UTC z (MakeDate d (MakeTime h mi))) = Num t1"
      then show "\<bar>t1\<bar> \<le> 8640000000000000"
        by (simp add: TimeClip_def split: if_splits)
    qed
    then have "- 8640000000000000 \<le> ?d1 * msPerDay - z" using t1 by linarith
    then show ?thesis using bz d1hi unfolding tu msPerDay_def by linarith
  qed
  then have ctu: "TimeClip tu = Num tu" by (rule TimeClip_Num)
  have "parseDateTime z (field ed ''recur_until'') (Str ''23:59'') =
          Ok (TimeClip (UTC z (MakeDate ?d1 (MakeTime 23 59))))"
    by (rule conjunct2[OF parseDateTime_midnight[OF u], rule_format, of "Str ''23:59''" "''23:59''"])
       (simp, rule time_2359(1), rule time_2359(2))
  then have pu: "parseDateTime z (field ed ''recur_until'') (Str ''23:59'') = Ok (Num tu)"
    by (simp only: tu_def[symmetric] ctu)
  have dtu: "Day (tu + z) = ?d1"
    unfolding tu using Day_within[of 86340000 ?d1] by (simp add: msPerDay_def)
  define cx where "cx = \<lparr>tza = z, uuid = gen, fault = flt, seriesId = sid, eventData = ed,
               selectedDays = sel', untilDate = Num tu\<rparr>"
  define st2 where "st2 = \<lparr>tbl = filter (\<lambda>r. series_id r \<noteq> SqlText sid) rows, qn = 2, un = 0\<rparr>"
  have q: "rbind (query flt (\<lambda>t. t) \<lparr>tbl = rows, qn = 0, un = 0\<rparr>)
             (\<lambda>st1. rbind (query flt (filter (\<lambda>r. series_id r \<noteq> SqlText sid)) st1) f) = f st2" for f
    using nf by (simp add: query_def st2_def numeral_2_eq_2)
  have nfc: "\<forall>k. \<not> fault cx k" using nf by (simp add: cx_def)
  have lp: "series_loop cx (Num (?d0 * msPerDay - tza cx)) st2 =
           Ok (st2\<lparr>tbl := tbl st2 @ series_rows (tza cx) (uuid cx) (seriesId cx) (eventData cx)
                                  h mi dur (un st2)
                                  (expected_days ?d0 (Day (tu + tza cx)) (selectedDays cx)),
                  qn := qn st2 + length (expected_days ?d0 (Day (tu + tza cx)) (selectedDays cx)),
                  un := un st2 + length (expected_days ?d0 (Day (tu + tza cx)) (selectedDays cx))\<rparr>)"
  proof (rule series_loop_days[OF nfc, of tu ts h mi dur ?d0 _ st2])
    show "untilDate cx = Num tu" by (simp add: cx_def)
    show "Day (tu + tza cx) < DayFromYear 10000" using hi by (simp add: cx_def dtu)
    show "\<bar>tza cx\<bar> \<le> msPerDay" using z by (simp add: cx_def)
    show "(case field (eventData cx) ''time'' of Undefined \<Rightarrow> Str ''00:00'' | v \<Rightarrow> v) = Str ts"
      using tv by (simp add: cx_def)
    show "component (split_on CHR '':'' ts) 0 = Ok (Num h)" by (rule h)
    show "component (split_on CHR '':'' ts) 1 = Ok (Num mi)" by (rule mi)
    show "ToNumber (finalDuration (eventData cx)) = Ok (Num dur)" using dur by (simp add: cx_def)
    show "DayFromYear 100 \<le> ?d0" by (rule lo)
    show "nat (Day (tu + tza cx) + 1 - ?d0) = nat (Day (tu + tza cx) + 1 - ?d0)" by simp
  qed
  have lp': "series_loop cx (Num t0) st2 =
           Ok \<lparr>tbl = filter (\<lambda>r. series_id r \<noteq> SqlText sid) rows @
                       series_rows z gen sid ed h mi dur 0 (expected_days ?d0 ?d1 sel'),
                qn = 2 + length (expected_days ?d0 ?d1 sel'),
                un = length (expected_days ?d0 ?d1 sel')\<rparr>"
    using lp t0 by (simp add: cx_def st2_def dtu)
  have "replace_series z gen flt sid ed rows =
          rbind (series_loop cx (Num t0) st2) (\<lambda>st3. query flt (\<lambda>t. t) st3)"
    unfolding replace_series_def q cx_def sel'_def
    by (simp only: sel s pu rbind.simps)
  then have "replace_series z gen flt sid ed rows =
          query flt (\<lambda>t. t) \<lparr>tbl = filter (\<lambda>r. series_id r \<noteq> SqlText sid) rows @
                       series_rows z gen sid ed h mi dur 0 (expected_days ?d0 ?d1 sel'),
                qn = 2 + length (expected_days ?d0 ?d1 sel'),
                un = length (expected_days ?d0 ?d1 sel')\<rparr>"
    by (simp add: lp')
  then show ?thesis
    using nf by (simp add: query_def sel'_def)
qed

section \<open>The loop and the expander\<close>

lemma loop_body_day_instance:
  "loop_body cx cur st =
     (case day_instance (tza cx) (eventData cx) (selectedDays cx) cur of
        Ok None \<Rightarrow> Ok st
      | Ok (Some p) \<Rightarrow>
          query (fault cx)
            (\<lambda>rows. rows @ [insert_row (uuid cx) (seriesId cx) (eventData cx) (un st) (fst p) (snd p)])
            (st\<lparr>un := Suc (un st)\<rparr>)
      | Throw e \<Rightarrow> Throw e
      | Untracked \<Rightarrow> Untracked)"
proof (cases "getDay (tza cx) cur \<in> set (selectedDays cx)")
  case False
  then show ?thesis by (simp add: loop_body_def day_instance_def)
next
  case True
  show ?thesis
  proof (cases "parseDateTime (tza cx) (Str (formatDateToYYYYMMDD (tza cx) cur))
                  (field (eventData cx) ''time'')")
    case (Ok eventStart)
    show ?thesis
    proof (cases "ToNumber (finalDuration (eventData cx))")
      case m: (Ok minutes)
      show ?thesis
      proof (cases "toISOString eventStart")
        case s: (Ok s)
        show ?thesis
          by (cases "toISOString (new_Date_value (js_add eventStart (js_mul minutes (Num 60000))))")
             (simp_all add: loop_body_def day_instance_def True Ok m s Let_def)
      qed (simp_all add: loop_body_def day_instance_def True Ok m Let_def)
    qed (simp_all add: loop_body_def day_instance_def True Ok)
  qed (simp_all add: loop_body_def day_instance_def True)
qed

lemma pair_rows_append:
  "pair_rows gen sid ed n (ps @ qs) =
     pair_rows gen sid ed n ps @ pair_rows gen sid ed (n + length ps) qs"
  by (induction ps arbitrary: n) simp_all

lemma pair_rows_length: "length (pair_rows gen sid ed n ps) = length ps"
  by (induction ps arbitrary: n) simp_all

text \<open>Without faults of the store the loop inserts the rows of the expander's pairs.\<close>

lemma series_loop_expand:
  assumes nf: "\<forall>k. \<not> fault cx k"
  shows "series_loop cx cur st =
     (case expand (tza cx) (eventData cx) (selectedDays cx) (untilDate cx) cur of
        Ok ps \<Rightarrow>
          Ok (st\<lparr>tbl := tbl st @ pair_rows (uuid cx) (seriesId cx) (eventData cx) (un st) ps,
                 qn := qn st + length ps, un := un st + length ps\<rparr>)
      | Throw e \<Rightarrow> Throw e
      | Untracked \<Rightarrow> Untracked)"
  using nf
proof (induction cx cur st rule: series_loop.induct)
  case (1 cx cur st)
  let ?next = "setDate (tza cx) cur (js_add (getDate (tza cx) cur) (Num 1))"
  let ?E = "expand (tza cx) (eventData cx) (selectedDays cx) (untilDate cx)"
  show ?case
  proof (cases "js_le cur (untilDate cx)")
    case False
    then show ?thesis
      by (simp add: series_loop.simps[of cx cur st] expand.simps[of _ _ _ _ cur])
  next
    case True
    have nfq: "\<And>f s. query (fault cx) f s = Ok (s\<lparr>tbl := f (tbl s), qn := Suc (qn s)\<rparr>)"
      using "1.prems" by (simp add: query_def)
    show ?thesis
    proof (cases "day_instance (tza cx) (eventData cx) (selectedDays cx) cur")
      case (Ok inst)
      define st' where "st' = (case inst of None \<Rightarrow> st
        | Some p \<Rightarrow> st\<lparr>un := Suc (un st),
              tbl := tbl st @ [insert_row (uuid cx) (seriesId cx) (eventData cx) (un st) (fst p) (snd p)],
              qn := Suc (qn st)\<rparr>)"
      have b: "loop_body cx cur st = Ok st'"
        by (cases inst) (simp_all add: loop_body_day_instance Ok nfq st'_def)
      have ih: "series_loop cx ?next st' =
         (case ?E ?next of
            Ok ps \<Rightarrow>
              Ok (st'\<lparr>tbl := tbl st' @ pair_rows (uuid cx) (seriesId cx) (eventData cx) (un st') ps,
                     qn := qn st' + length ps, un := un st' + length ps\<rparr>)
          | Throw e \<Rightarrow> Throw e
          | Untracked \<Rightarrow> Untracked)"
        using "1.IH"[OF True b "1.prems"] .
      have l: "series_loop cx cur st = series_loop cx ?next st'"
        using True b by (simp add: series_loop.simps[of cx cur st])
      show ?thesis
        unfolding l ih expand.simps[of _ _ _ _ cur]
        by (cases "?E ?next"; cases inst) (simp_all add: True Ok st'_def)
    next
      case (Throw e)
      then show ?thesis
        using True
        by (simp add: series_loop.simps[of cx cur st] expand.simps[of _ _ _ _ cur]
            loop_body_day_instance)
    next
      case Untracked
      then show ?thesis
        using True
        by (simp add: series_loop.simps[of cx cur st] expand.simps[of _ _ _ _ cur]
            loop_body_day_instance)
    qed
  qed
qed

lemma expand_stop: "\<not> js_le cur until \<Longrightarrow> expand z ed sel until cur = Ok []"
  by (simp add: expand.simps[of _ _ _ _ cur])


lemma day_instance_minutes:
  "day_instance z ed sel cur = Ok (Some p) \<Longrightarrow>
     \<exists>m. ToNumber (finalDuration ed) = Ok (Num m) \<and> snd p = fst p + m * 60000"
proof -
  assume a: "day_instance z ed sel cur = Ok (Some p)"
  then obtain eventStart minutes s e where
    m: "ToNumber (finalDuration ed) = Ok minutes"
    and s: "toISOString eventStart = Ok s"
    and e: "toISOString (new_Date_value (js_add eventStart (js_mul minutes (Num 60000)))) = Ok e"
    and p: "p = (s, e)"
    by (auto simp: day_instance_def rbind_Ok split: if_splits)
  from s have es: "eventStart = Num s"
    by (cases eventStart) (simp_all add: toISOString_def)
  from e es obtain k where k: "minutes = Num k"
    by (cases minutes) (simp_all add: toISOString_def new_Date_value_def)
  have "e = s + k * 60000"
    using e by (simp add: es k toISOString_def new_Date_value_def TimeClip_def split: if_splits)
  then show ?thesis using m k p by simp
qed

lemma expand_minutes:
  "expand z ed sel until cur = Ok ps \<Longrightarrow> ps \<noteq> [] \<Longrightarrow>
     \<exists>m. ToNumber (finalDuration ed) = Ok (Num m) \<and>
         list_all (\<lambda>p. snd p = fst p + m * 60000) ps"
proof (induction z ed sel until cur arbitrary: ps rule: expand.induct)
  case (1 z ed sel until cur)
  show ?case
  proof (cases "js_le cur until")
    case False
    then show ?thesis using "1.prems" by (simp add: expand_stop)
  next
    case True
    then obtain inst qs where i: "day_instance z ed sel cur = Ok inst"
      and q: "expand z ed sel until (setDate z cur (js_add (getDate z cur) (Num 1))) = Ok qs"
      and ps: "ps = (case inst of None \<Rightarrow> qs | Some p \<Rightarrow> p # qs)"
      using "1.prems"(1) by (auto simp: expand.simps[of _ _ _ _ cur] split: result.splits)
    have ih: "qs \<noteq> [] \<Longrightarrow> \<exists>m. ToNumber (finalDuration ed) = Ok (Num m) \<and>
         list_all (\<lambda>p. snd p = fst p + m * 60000) qs"
      using "1.IH"[OF True i q] .
    show ?thesis
    proof (cases inst)
      case None
      then show ?thesis using ih ps "1.prems"(2) by simp
    next
      case (Some p)
      from day_instance_minutes[OF i[unfolded Some]] obtain m where
        m: "ToNumber (finalDuration ed) = Ok (Num m)" "snd p = fst p + m * 60000" by blast
      show ?thesis
      proof (cases "qs = []")
        case True
        then show ?thesis using m ps Some by simp
      next
        case False
        from ih[OF False] obtain m' where
          m': "ToNumber (finalDuration ed) = Ok (Num m')"
              "list_all (\<lambda>p. snd p = fst p + m' * 60000) qs" by blast
        have "m' = m" using m(1) m'(1) by simp
        then show ?thesis using m m' ps Some by simp
      qed
    qed
  qed
qed

text \<open>The walk is finite: it visits no more days than lie between the cursor and the end.\<close>

lemma expand_length:
  "expand z ed sel (Num u) (Num c) = Ok ps \<Longrightarrow> int (length ps) \<le> max 0 ((u - c) div msPerDay + 1)"
proof (induction z ed sel "Num u" "Num c" arbitrary: ps c rule: expand.induct)
  case (1 z ed sel c)
  show ?case
  proof (cases "c \<le> u")
    case False
    then show ?thesis using "1.prems" by (simp add: expand_stop)
  next
    case True
    then have le: "js_le (Num c) (Num u)" by simp
    obtain inst qs where i: "day_instance z ed sel (Num c) = Ok inst"
      and q: "expand z ed sel (Num u) (setDate z (Num c) (js_add (getDate z (Num c)) (Num 1))) = Ok qs"
      and ps: "ps = (case inst of None \<Rightarrow> qs | Some p \<Rightarrow> p # qs)"
      using "1.prems"(1) le
      by (auto simp: expand.simps[of _ _ _ _ "Num c"] split: result.splits)
    have n: "setDate z (Num c) (js_add (getDate z (Num c)) (Num 1)) = TimeClip (c + msPerDay)"
      by (rule setDate_next)
    have d: "(u - c) div msPerDay = (u - (c + msPerDay)) div msPerDay + 1"
    proof -
      have "u - c = (u - (c + msPerDay)) + 1 * msPerDay" by simp
      then show ?thesis by (simp only: div_add_self2 div_mult_self1 msPerDay_def)
    qed
    have nn: "0 \<le> (u - c) div msPerDay" using True by (simp add: msPerDay_def pos_imp_zdiv_nonneg_iff)
    have "int (length qs) \<le> (u - c) div msPerDay"
    proof (cases "TimeClip (c + msPerDay)")
      case NaN
      then have "qs = []" using q n by (simp add: expand_stop)
      then show ?thesis using nn by simp
    next
      case (Num c')
      then have c': "c' = c + msPerDay" by (simp add: TimeClip_def split: if_splits)
      have "int (length qs) \<le> max 0 ((u - c') div msPerDay + 1)"
        using "1.hyps"[OF le i, of c' qs] q n Num by simp
      then show ?thesis using nn d c' by simp
    qed
    then show ?thesis using ps by (cases inst) simp_all
  qed
qed

lemma replace_series_nofault:
  assumes nf: "\<forall>k. \<not> flt k"
  shows "replace_series z gen flt sid ed rows =
     (case expander z ed of
        Ok ps \<Rightarrow>
          Ok \<lparr>tbl = filter (\<lambda>r. series_id r \<noteq> SqlText sid) rows @ pair_rows gen sid ed 0 ps,
              qn = 3 + length ps, un = length ps\<rparr>
      | Throw e \<Rightarrow> Throw e
      | Untracked \<Rightarrow> Untracked)"
proof -
  define st2 where "st2 = \<lparr>tbl = filter (\<lambda>r. series_id r \<noteq> SqlText sid) rows, qn = 2, un = 0\<rparr>"
  have q: "rbind (query flt (\<lambda>t. t) \<lparr>tbl = rows, qn = 0, un = 0\<rparr>)
             (\<lambda>st1. rbind (query flt (filter (\<lambda>r. series_id r \<noteq> SqlText sid)) st1) f) = f st2" for f
    using nf by (simp add: query_def st2_def numeral_2_eq_2)
  have c: "query flt (\<lambda>t. t) st = Ok (st\<lparr>qn := Suc (qn st)\<rparr>)" for st
    using nf by (simp add: query_def)
  have l: "series_loop \<lparr>tza = z, uuid = gen, fault = flt, seriesId = sid, eventData = ed,
               selectedDays = sel, untilDate = until\<rparr> cur st2 =
           (case expand z ed sel until cur of
              Ok ps \<Rightarrow> Ok (st2\<lparr>tbl := tbl st2 @ pair_rows gen sid ed (un st2) ps,
                 qn := qn st2 + length ps, un := un st2 + length ps\<rparr>)
            | Throw e \<Rightarrow> Throw e
            | Untracked \<Rightarrow> Untracked)" for sel until cur
    using series_loop_expand[of "\<lparr>tza = z, uuid = gen, fault = flt, seriesId = sid, eventData = ed,
               selectedDays = sel, untilDate = until\<rparr>" cur st2] nf
    by (simp split: result.splits)
  show ?thesis
  proof (cases "selected_days (field ed ''recurring_days'')")
    case (Ok sel)
    show ?thesis
    proof (cases "parseDateTime z (field ed ''series_start_date'') Undefined")
      case s: (Ok cur)
      show ?thesis
      proof (cases "parseDateTime z (field ed ''recur_until'') (Str ''23:59'')")
        case u: (Ok until)
        define sel' where "sel' = (if length sel = 0 then map Num [0, 1, 2, 3, 4, 5, 6] else sel)"
        have e: "expander z ed = expand z ed sel' until cur"
          unfolding expander_def sel'_def by (simp only: Ok s u rbind.simps)
        have r: "replace_series z gen flt sid ed rows =
                   rbind (series_loop \<lparr>tza = z, uuid = gen, fault = flt, seriesId = sid,
                            eventData = ed, selectedDays = sel', untilDate = until\<rparr> cur st2)
                     (\<lambda>st3. query flt (\<lambda>t. t) st3)"
          unfolding replace_series_def q sel'_def by (simp only: Ok s u rbind.simps)
        show ?thesis
          unfolding e r l
          by (cases "expand z ed sel' until cur") (simp_all add: c st2_def)
      qed (simp_all add: replace_series_def q expander_def Ok s)
    qed (simp_all add: replace_series_def q expander_def Ok)
  qed (simp_all add: replace_series_def q expander_def)
qed

lemma query_tbl: "query flt f st = Ok st' \<Longrightarrow> tbl st' = f (tbl st)"
  by (auto simp: query_def split: if_splits)

text \<open>The statements that the store refuses.\<close>

lemma refused_iff: "refused flt a n \<longleftrightarrow> (\<exists>k. a \<le> k \<and> k < a + n \<and> flt k)"
  by (auto simp: refused_def list_ex_iff)













section \<open>The single-event update\<close>

lemma update_single_tbl:
  "update_single flt u ed rows = Ok st \<Longrightarrow>
     tbl st = map (\<lambda>r. if uid r = SqlText u then update_row ed r else r) rows"
  by (auto simp: update_single_def query_def split: if_splits)

lemma update_single_cases:
  "update_single flt u ed rows =
     (if flt 0 then Throw StoreError
      else Ok \<lparr>tbl = map (\<lambda>r. if uid r = SqlText u then update_row ed r else r) rows,
               qn = Suc 0, un = 0\<rparr>)"
  by (simp add: update_single_def query_def)

lemma uid_update_row: "uid (update_row ed r) = uid r"
  by (simp add: update_row_def)

text \<open>
  Claim C9. A PUT with \<^verbatim>\<open>uid\<close> (and no \<^verbatim>\<open>seriesId\<close>) always answers; it keeps the number
  and the identifiers of the rows, leaves every row whose \<^verbatim>\<open>uid\<close> differs from the
  parameter as it was, whether the row belongs to a series or not, and when the identifiers
  of the table are distinct it changes at most one row. The table is the whole state of
  the handler.
\<close>

theorem updateSingle_frame:
  assumes "\<not> param_given p_seriesId" and "param_given (Some u)"
  shows "\<exists>resp rows'.
           handler_PUT z gen flt p_seriesId (Some u) ed rows = Some (resp, rows') \<and>
           length rows' = length rows \<and>
           map uid rows' = map uid rows \<and>
           list_all (\<lambda>(r, r'). uid r = SqlText u \<or> r' = r) (zip rows rows') \<and>
           (distinct (map uid rows) \<longrightarrow>
              length (filter (\<lambda>(r, r'). r' \<noteq> r) (zip rows rows')) \<le> 1)"
proof (cases "flt 0")
  case True
  have z: "list_all (\<lambda>(r, r'). uid r = SqlText u \<or> r' = r) (zip rows rows)"
    by (induction rows) simp_all
  have f: "filter (\<lambda>(r, r'). r' \<noteq> r) (zip rows rows) = []"
    by (induction rows) simp_all
  show ?thesis using assms True z f
    by (simp add: handler_PUT_def update_single_cases)
next
  case False
  let ?f = "\<lambda>r. if uid r = SqlText u then update_row ed r else r"
  have h: "handler_PUT z gen flt p_seriesId (Some u) ed rows =
             Some (\<lparr>statusCode = 200, body = ''Event updated successfully''\<rparr>, map ?f rows)"
    using assms False by (simp add: handler_PUT_def update_single_cases)
  have u: "map uid (map ?f rows) = map uid rows"
    by (induction rows) (simp_all add: uid_update_row)
  have a: "list_all (\<lambda>(r, r'). uid r = SqlText u \<or> r' = r) (zip rows (map ?f rows))"
    by (induction rows) simp_all
  have d: "length (filter (\<lambda>(r, r'). r' \<noteq> r) (zip rows (map ?f rows))) \<le> 1"
    if "distinct (map uid rows)"
    using that
  proof (induction rows)
    case Nil
    show ?case by simp
  next
    case (Cons r rs)
    have rest: "uid r = SqlText u \<Longrightarrow> filter (\<lambda>(r, r'). r' \<noteq> r) (zip rs (map ?f rs)) = []"
    proof -
      assume e: "uid r = SqlText u"
      have "\<And>x. x \<in> set rs \<Longrightarrow> ?f x = x" using Cons.prems e by force
      then have "map ?f rs = rs" by (simp add: map_idI)
      then have "zip rs (map ?f rs) = zip rs rs" by simp
      moreover have "filter (\<lambda>(r, r'). r' \<noteq> r) (zip rs rs) = []" by (induction rs) simp_all
      ultimately show ?thesis by simp
    qed
    show ?case using Cons rest by (cases "uid r = SqlText u") simp_all
  qed
  show ?thesis using h u a d by (simp del: map_map)
qed

theorem updateSingle_frame_witness:
  "\<exists>resp rows'.
     handler_PUT 0 (\<lambda>n. []) (\<lambda>k. False) None (Some ''ev-1'') [(''summary'', Str ''Rex'')] rows0
       = Some (resp, rows') \<and>
     length rows' = 3 \<and>
     map uid rows' = [SqlText ''ev-1'', SqlText ''ev-2'', SqlText ''ev-3''] \<and>
     list_all (\<lambda>(r, r'). uid r = SqlText ''ev-1'' \<or> r' = r) (zip rows0 rows') \<and>
     length (filter (\<lambda>(r, r'). r' \<noteq> r) (zip rows0 rows')) \<le> 1"
proof -
  have a: "\<not> param_given None" "param_given (Some ''ev-1'')"
    by (simp_all add: param_given_def)
  have l: "length rows0 = 3"
    and u: "map uid rows0 = [SqlText ''ev-1'', SqlText ''ev-2'', SqlText ''ev-3'']"
    by (simp_all add: rows0_def row0_def)
  have d: "distinct [SqlText ''ev-1'', SqlText ''ev-2'', SqlText ''ev-3'']"
    by simp
  show ?thesis
    using updateSingle_frame[OF a, of 0 "\<lambda>n. []" "\<lambda>k. False" "[(''summary'', Str ''Rex'')]" rows0]
    unfolding l u using d by simp
qed

lemma body_value_field: "body_value ed k = to_sql (field ed k)"
  by (simp add: body_value_def field_def split: option.splits)

lemma body_value_or_Null: "body_value_or ed k SqlNull = to_sql (js_or (field ed k) Null)"
  by (simp add: body_value_or_def field_def js_or_def split: option.splits)

lemma body_value_or_False:
  "body_value_or ed k (SqlBool False) = to_sql (js_or (field ed k) (Bool False))"
  by (simp add: body_value_or_def field_def js_or_def split: option.splits)

lemma body_json_field:
  "body_json ed k = (if truthy (field ed k) then JSON_stringify (field ed k) else SqlNull)"
  by (cases "field ed k")
     (auto simp: body_json_def field_def JSON_stringify_def split: option.splits)

lemma update_row_body_row: "uid r = SqlText u \<Longrightarrow> update_row ed r = body_row u ed"
  by (simp add: update_row_def body_row_def body_value_field body_value_or_Null
      body_value_or_False body_json_field)

text \<open>
  Claim C10. Let the store accept the UPDATE. The handler answers 200, and every row whose
  \<^verbatim>\<open>uid\<close> is the parameter becomes the row that the body describes by itself
  (\<open>body_row\<close>): each of its columns is overwritten from the body, whatever the row held
  before, and the other rows stay as they were. In particular a property that the body
  leaves out becomes NULL in the columns description, series_id, recur_until,
  series_start_date and recurring_days, and false in is_recurring.
\<close>

theorem updateSingle_overwrites:
  assumes "\<not> param_given p_seriesId" and "param_given (Some u)" and "\<not> flt 0"
  shows "\<exists>rows'.
           handler_PUT z gen flt p_seriesId (Some u) ed rows =
             Some (\<lparr>statusCode = 200, body = ''Event updated successfully''\<rparr>, rows') \<and>
           length rows' = length rows \<and>
           (\<forall>i<length rows.
              rows' ! i = (if uid (rows ! i) = SqlText u then body_row u ed else rows ! i)) \<and>
           (\<forall>i<length rows. uid (rows ! i) = SqlText u \<longrightarrow>
              (map_of ed ''description'' = None \<longrightarrow> description (rows' ! i) = SqlNull) \<and>
              (map_of ed ''series_id'' = None \<longrightarrow> series_id (rows' ! i) = SqlNull) \<and>
              (map_of ed ''recur_until'' = None \<longrightarrow> recur_until (rows' ! i) = SqlNull) \<and>
              (map_of ed ''series_start_date'' = None \<longrightarrow> series_start_date (rows' ! i) = SqlNull) \<and>
              (map_of ed ''recurring_days'' = None \<longrightarrow> recurring_days (rows' ! i) = SqlNull) \<and>
              (map_of ed ''is_recurring'' = None \<longrightarrow> is_recurring (rows' ! i) = SqlBool False))"
proof -
  let ?f = "\<lambda>r. if uid r = SqlText u then update_row ed r else r"
  have h: "handler_PUT z gen flt p_seriesId (Some u) ed rows =
             Some (\<lparr>statusCode = 200, body = ''Event updated successfully''\<rparr>, map ?f rows)"
    using assms by (simp add: handler_PUT_def update_single_cases)
  have r: "map ?f rows ! i = (if uid (rows ! i) = SqlText u then body_row u ed else rows ! i)"
    if "i < length rows" for i
    using that by (simp add: update_row_body_row)
  have o: "(map_of ed ''description'' = None \<longrightarrow> description (body_row u ed) = SqlNull) \<and>
           (map_of ed ''series_id'' = None \<longrightarrow> series_id (body_row u ed) = SqlNull) \<and>
           (map_of ed ''recur_until'' = None \<longrightarrow> recur_until (body_row u ed) = SqlNull) \<and>
           (map_of ed ''series_start_date'' = None \<longrightarrow> series_start_date (body_row u ed) = SqlNull) \<and>
           (map_of ed ''recurring_days'' = None \<longrightarrow> recurring_days (body_row u ed) = SqlNull) \<and>
           (map_of ed ''is_recurring'' = None \<longrightarrow> is_recurring (body_row u ed) = SqlBool False)"
    by (simp add: body_row_def body_value_or_def body_json_def)
  have "length (map ?f rows) = length rows \<and>
        (\<forall>i<length rows.
           map ?f rows ! i = (if uid (rows ! i) = SqlText u then body_row u ed else rows ! i)) \<and>
        (\<forall>i<length rows. uid (rows ! i) = SqlText u \<longrightarrow>
           (map_of ed ''description'' = None \<longrightarrow> description (map ?f rows ! i) = SqlNull) \<and>
           (map_of ed ''series_id'' = None \<longrightarrow> series_id (map ?f rows ! i) = SqlNull) \<and>
           (map_of ed ''recur_until'' = None \<longrightarrow> recur_until (map ?f rows ! i) = SqlNull) \<and>
           (map_of ed ''series_start_date'' = None \<longrightarrow>
              series_start_date (map ?f rows ! i) = SqlNull) \<and>
           (map_of ed ''recurring_days'' = None \<longrightarrow> recurring_days (map ?f rows ! i) = SqlNull) \<and>
           (map_of ed ''is_recurring'' = None \<longrightarrow> is_recurring (map ?f rows ! i) = SqlBool False))"
    using r o by (simp del: nth_map)
  then show ?thesis unfolding h by blast
qed

theorem updateSingle_overwrites_witness:
  "\<exists>rows'.
     handler_PUT 0 (\<lambda>n. []) (\<lambda>k. False) None (Some ''ev-1'') ed_patch rows0 =
       Some (\<lparr>statusCode = 200, body = ''Event updated successfully''\<rparr>, rows') \<and>
     length rows' = 3 \<and>
     rows' ! 0 =
       \<lparr>uid = SqlText ''ev-1'', summary = SqlText ''Rex'', ev_type = SqlText ''boarding'',
        dtstart = SqlText ''2024-02-01T09:00:00.000Z'', dtend = SqlText ''2024-02-01T10:00:00.000Z'',
        description = SqlNull, is_recurring = SqlBool False, recurring_days = SqlNull,
        series_id = SqlNull, recur_until = SqlNull, series_start_date = SqlNull\<rparr> \<and>
     rows' ! 1 = rows0 ! 1 \<and> rows' ! 2 = rows0 ! 2 \<and>
     description (rows0 ! 0) = SqlText ''bring treats'' \<and>
     series_id (rows0 ! 0) = SqlText ''s1''"
proof -
  have a: "\<not> param_given None" "param_given (Some ''ev-1'')" "\<not> (\<lambda>k::nat. False) 0"
    by (simp_all add: param_given_def)
  have l: "length rows0 = 3"
    and u: "uid (rows0 ! 0) = SqlText ''ev-1''" "uid (rows0 ! 1) \<noteq> SqlText ''ev-1''"
      "uid (rows0 ! 2) \<noteq> SqlText ''ev-1''"
    and d: "description (rows0 ! 0) = SqlText ''bring treats''"
      "series_id (rows0 ! 0) = SqlText ''s1''"
    by (simp_all add: rows0_def row0_def)
  have b: "body_row ''ev-1'' ed_patch =
       \<lparr>uid = SqlText ''ev-1'', summary = SqlText ''Rex'', ev_type = SqlText ''boarding'',
        dtstart = SqlText ''2024-02-01T09:00:00.000Z'', dtend = SqlText ''2024-02-01T10:00:00.000Z'',
        description = SqlNull, is_recurring = SqlBool False, recurring_days = SqlNull,
        series_id = SqlNull, recur_until = SqlNull, series_start_date = SqlNull\<rparr>"
    by code_simp
  from updateSingle_overwrites[OF a, of 0 "\<lambda>n. []" ed_patch rows0] obtain rows' where
    h: "handler_PUT 0 (\<lambda>n. []) (\<lambda>k. False) None (Some ''ev-1'') ed_patch rows0 =
          Some (\<lparr>statusCode = 200, body = ''Event updated successfully''\<rparr>, rows')"
    and n: "length rows' = length rows0"
    and r: "\<forall>i<length rows0.
              rows' ! i = (if uid (rows0 ! i) = SqlText ''ev-1'' then body_row ''ev-1'' ed_patch
                           else rows0 ! i)"
    by blast
  have "rows' ! 0 = body_row ''ev-1'' ed_patch" "rows' ! 1 = rows0 ! 1" "rows' ! 2 = rows0 ! 2"
    using r u unfolding l by simp_all
  then show ?thesis using h n l b d by simp
qed

section \<open>The replacement of a series\<close>

lemma instance_start_mono: "d < d' \<Longrightarrow> instance_start z h mi d < instance_start z h mi d'"
  by (simp add: instance_start_def UTC_def MakeDate_def msPerDay_def)

lemma expected_days_strict: "sorted_wrt (<) (expected_days d0 d1 sel)"
proof -
  have "sorted_wrt (<) [d0..d1]" by (simp add: strict_sorted_iff)
  then show ?thesis unfolding expected_days_def by (rule sorted_wrt_filter)
qed

lemma instance_starts_strict:
  "sorted_wrt (<) (map (instance_start z h mi) (expected_days d0 d1 sel))"
  unfolding sorted_wrt_map
  by (rule sorted_wrt_mono_rel[OF _ expected_days_strict]) (simp add: instance_start_mono)

lemma series_rows_dtstart:
  "map dtstart (series_rows z gen sid ed h mi dur n ds) = map (\<lambda>d. SqlTime (instance_start z h mi d)) ds"
  by (induction ds arbitrary: n) (simp_all add: insert_row_def)

lemma series_rows_dtend:
  "map dtend (series_rows z gen sid ed h mi dur n ds) =
     map (\<lambda>d. SqlTime (instance_start z h mi d + dur * 60000)) ds"
  by (induction ds arbitrary: n) (simp_all add: insert_row_def)

lemma handler_PUT_series:
  "param_given (Some sid) \<Longrightarrow>
   handler_PUT z gen flt (Some sid) p_uid ed rows =
     (case replace_series z gen flt sid ed rows of
        Ok st \<Rightarrow> Some (\<lparr>statusCode = 200, body = ''Event series updated successfully''\<rparr>, tbl st)
      | Throw e \<Rightarrow> Some (\<lparr>statusCode = 500, body = ''Internal Server Error''\<rparr>, rows)
      | Untracked \<Rightarrow> None)"
  by (simp add: handler_PUT_def)

text \<open>
  Claim C1. Take a body whose two dates parse to valid dates between the years 100 and 9999,
  whose time and duration are numeric, and whose weekday selection is not empty; let the
  store raise nothing and the host's zone be within a day of UTC. Then the PUT with
  \<^verbatim>\<open>seriesId\<close> answers 200 and leaves the rows of the other series followed by one new row
  for each day from the day of \<^verbatim>\<open>series_start_date\<close> to the day of \<^verbatim>\<open>recur_until\<close>, both
  included, whose weekday is selected. The days are in strictly ascending order (so none is
  repeated), the starts of the rows are the starts of these days in the same order, and
  they ascend strictly as well.
\<close>

theorem series_expander_days:
  assumes sid: "param_given (Some sid)"
    and nf: "\<forall>k. \<not> flt k"
    and sel: "selected_days (field ed ''recurring_days'') = Ok sel"
    and ne: "sel \<noteq> []"
    and s: "parseDateTime z (field ed ''series_start_date'') Undefined = Ok (Num t0)"
    and u: "parseDateTime z (field ed ''recur_until'') Undefined = Ok (Num t1)"
    and lo: "DayFromYear 100 \<le> Day (t0 + z)"
    and hi: "Day (t1 + z) < DayFromYear 10000"
    and z: "\<bar>z\<bar> \<le> msPerDay"
    and tv: "(case field ed ''time'' of Undefined \<Rightarrow> Str ''00:00'' | v \<Rightarrow> v) = Str ts"
    and h: "component (split_on CHR '':'' ts) 0 = Ok (Num h)"
    and mi: "component (split_on CHR '':'' ts) 1 = Ok (Num mi)"
    and dur: "ToNumber (finalDuration ed) = Ok (Num dur)"
  shows "handler_PUT z gen flt (Some sid) p_uid ed rows =
           Some (\<lparr>statusCode = 200, body = ''Event series updated successfully''\<rparr>,
                 filter (\<lambda>r. series_id r \<noteq> SqlText sid) rows @
                 series_rows z gen sid ed h mi dur 0
                   (expected_days (Day (t0 + z)) (Day (t1 + z)) sel)) \<and>
         set (expected_days (Day (t0 + z)) (Day (t1 + z)) sel) =
           {d. Day (t0 + z) \<le> d \<and> d \<le> Day (t1 + z) \<and> Num (WeekDay (d * msPerDay)) \<in> set sel} \<and>
         sorted_wrt (<) (expected_days (Day (t0 + z)) (Day (t1 + z)) sel) \<and>
         map dtstart (series_rows z gen sid ed h mi dur 0
                        (expected_days (Day (t0 + z)) (Day (t1 + z)) sel)) =
           map (\<lambda>d. SqlTime (instance_start z h mi d))
             (expected_days (Day (t0 + z)) (Day (t1 + z)) sel) \<and>
         sorted_wrt (<) (map (instance_start z h mi)
                           (expected_days (Day (t0 + z)) (Day (t1 + z)) sel))"
proof -
  from replace_series_wellformed[OF nf sel s u lo hi z tv h mi dur, of gen sid rows]
  obtain st where
    r: "replace_series z gen flt sid ed rows = Ok st"
    and t: "tbl st = filter (\<lambda>r. series_id r \<noteq> SqlText sid) rows @
             series_rows z gen sid ed h mi dur 0
               (expected_days (Day (t0 + z)) (Day (t1 + z)) sel)"
    using ne by auto
  have 1: "handler_PUT z gen flt (Some sid) p_uid ed rows =
           Some (\<lparr>statusCode = 200, body = ''Event series updated successfully''\<rparr>,
                 filter (\<lambda>r. series_id r \<noteq> SqlText sid) rows @
                 series_rows z gen sid ed h mi dur 0
                   (expected_days (Day (t0 + z)) (Day (t1 + z)) sel))"
    by (simp add: handler_PUT_series[OF sid] r t)
  have 2: "set (expected_days (Day (t0 + z)) (Day (t1 + z)) sel) =
           {d. Day (t0 + z) \<le> d \<and> d \<le> Day (t1 + z) \<and> Num (WeekDay (d * msPerDay)) \<in> set sel}"
    by (auto simp: expected_days_def WeekDay_def Day_mult)
  show ?thesis
    using 1 2 expected_days_strict instance_starts_strict series_rows_dtstart by blast
qed

theorem series_expander_days_witness:
  "handler_PUT 0 gen0 (\<lambda>k. False) (Some ''s1'') None ed1 rows0 =
     Some (\<lparr>statusCode = 200, body = ''Event series updated successfully''\<rparr>,
           [row0 ''ev-3'' ''Spike'' SqlNull] @
           series_rows 0 gen0 ''s1'' ed1 9 0 60 0 [19723, 19725, 19727]) \<and>
   map dtstart (series_rows 0 gen0 ''s1'' ed1 9 0 60 0 [19723, 19725, 19727]) =
     [SqlTime 1704099600000, SqlTime 1704272400000, SqlTime 1704445200000]"
proof -
  have a: "param_given (Some ''s1'')" "\<forall>k. \<not> (\<lambda>k::nat. False) k"
    by (simp_all add: param_given_def)
  have sel: "selected_days (field ed1 ''recurring_days'') = Ok [Num 1, Num 3, Num 5]"
    by code_simp
  have ne: "[Num 1, Num 3, Num 5] \<noteq> []" by simp
  have s: "parseDateTime 0 (field ed1 ''series_start_date'') Undefined = Ok (Num 1704067200000)"
    by code_simp
  have u: "parseDateTime 0 (field ed1 ''recur_until'') Undefined = Ok (Num 1704585600000)"
    by code_simp
  have d0: "Day (1704067200000 + 0) = 19723" and d1: "Day (1704585600000 + 0) = 19729"
    by (simp_all add: Day_def msPerDay_def)
  have lo: "DayFromYear 100 \<le> Day (1704067200000 + 0)"
    and hi: "Day (1704585600000 + 0) < DayFromYear 10000"
    unfolding d0 d1 by (simp_all add: DayFromYear_100 DayFromYear_10000)
  have z: "\<bar>0::int\<bar> \<le> msPerDay" by (simp add: msPerDay_def)
  have tv: "(case field ed1 ''time'' of Undefined \<Rightarrow> Str ''00:00'' | v \<Rightarrow> v) = Str ''09:00''"
    by code_simp
  have h: "component (split_on CHR '':'' ''09:00'') 0 = Ok (Num 9)"
    and mi: "component (split_on CHR '':'' ''09:00'') 1 = Ok (Num 0)"
    by code_simp+
  have dur: "ToNumber (finalDuration ed1) = Ok (Num 60)"
    by code_simp
  have days: "expected_days 19723 19729 [Num 1, Num 3, Num 5] = [19723, 19725, 19727]"
    by code_simp
  have f: "filter (\<lambda>r. series_id r \<noteq> SqlText ''s1'') rows0 = [row0 ''ev-3'' ''Spike'' SqlNull]"
    by (simp add: rows0_def row0_def)
  have st: "map (\<lambda>d. SqlTime (instance_start 0 9 0 d)) [19723, 19725, 19727] =
              [SqlTime 1704099600000, SqlTime 1704272400000, SqlTime 1704445200000]"
    by (simp add: instance_start_def UTC_def MakeDate_def MakeTime_def msPerDay_def msPerHour_def
        msPerMinute_def)
  show ?thesis
    using series_expander_days[OF a sel ne s u lo hi z tv h mi dur, of gen0 None rows0]
    unfolding d0 d1 days f st by simp
qed

lemma expected_days_all:
  "expected_days d0 d1 (map Num [0, 1, 2, 3, 4, 5, 6]) = [d0..d1]"
proof -
  have "Num ((d + 4) mod 7) \<in> set (map Num [0, 1, 2, 3, 4, 5, 6])" for d :: int
  proof -
    have "0 \<le> (d + 4) mod 7" "(d + 4) mod 7 < 7" by simp_all
    then have "(d + 4) mod 7 \<in> {0, 1, 2, 3, 4, 5, 6}" by auto
    then show ?thesis by auto
  qed
  then show ?thesis by (simp add: expected_days_def)
qed

text \<open>
  Claim C4. With the hypotheses of C1 but no weekday selected, the handler inserts the
  rows of the selection of all seven weekdays: one row for every day of the range.
\<close>

theorem empty_selection_every_day:
  assumes sid: "param_given (Some sid)"
    and nf: "\<forall>k. \<not> flt k"
    and sel: "selected_days (field ed ''recurring_days'') = Ok []"
    and s: "parseDateTime z (field ed ''series_start_date'') Undefined = Ok (Num t0)"
    and u: "parseDateTime z (field ed ''recur_until'') Undefined = Ok (Num t1)"
    and lo: "DayFromYear 100 \<le> Day (t0 + z)"
    and hi: "Day (t1 + z) < DayFromYear 10000"
    and z: "\<bar>z\<bar> \<le> msPerDay"
    and tv: "(case field ed ''time'' of Undefined \<Rightarrow> Str ''00:00'' | v \<Rightarrow> v) = Str ts"
    and h: "component (split_on CHR '':'' ts) 0 = Ok (Num h)"
    and mi: "component (split_on CHR '':'' ts) 1 = Ok (Num mi)"
    and dur: "ToNumber (finalDuration ed) = Ok (Num dur)"
  shows "handler_PUT z gen flt (Some sid) p_uid ed rows =
           Some (\<lparr>statusCode = 200, body = ''Event series updated successfully''\<rparr>,
                 filter (\<lambda>r. series_id r \<noteq> SqlText sid) rows @
                 series_rows z gen sid ed h mi dur 0
                   (expected_days (Day (t0 + z)) (Day (t1 + z)) (map Num [0, 1, 2, 3, 4, 5, 6]))) \<and>
         expected_days (Day (t0 + z)) (Day (t1 + z)) (map Num [0, 1, 2, 3, 4, 5, 6]) =
           [Day (t0 + z)..Day (t1 + z)]"
proof -
  from replace_series_wellformed[OF nf sel s u lo hi z tv h mi dur, of gen sid rows]
  obtain st where
    r: "replace_series z gen flt sid ed rows = Ok st"
    and t: "tbl st = filter (\<lambda>r. series_id r \<noteq> SqlText sid) rows @
             series_rows z gen sid ed h mi dur 0
               (expected_days (Day (t0 + z)) (Day (t1 + z)) (map Num [0, 1, 2, 3, 4, 5, 6]))"
    by auto
  show ?thesis
    using expected_days_all by (simp add: handler_PUT_series[OF sid] r t)
qed

theorem empty_selection_every_day_witness:
  "handler_PUT 0 gen0 (\<lambda>k. False) (Some ''s1'') None ed_every_day rows0 =
     Some (\<lparr>statusCode = 200, body = ''Event series updated successfully''\<rparr>,
           [row0 ''ev-3'' ''Spike'' SqlNull] @
           series_rows 0 gen0 ''s1'' ed_every_day 10 0 15 0
             [19723, 19724, 19725, 19726, 19727, 19728, 19729])"
proof -
  have a: "param_given (Some ''s1'')" "\<forall>k. \<not> (\<lambda>k::nat. False) k"
    by (simp_all add: param_given_def)
  have sel: "selected_days (field ed_every_day ''recurring_days'') = Ok []"
    by code_simp
  have s: "parseDateTime 0 (field ed_every_day ''series_start_date'') Undefined =
             Ok (Num 1704067200000)"
    by code_simp
  have u: "parseDateTime 0 (field ed_every_day ''recur_until'') Undefined = Ok (Num 1704585600000)"
    by code_simp
  have d0: "Day (1704067200000 + 0) = 19723" and d1: "Day (1704585600000 + 0) = 19729"
    by (simp_all add: Day_def msPerDay_def)
  have lo: "DayFromYear 100 \<le> Day (1704067200000 + 0)"
    and hi: "Day (1704585600000 + 0) < DayFromYear 10000"
    unfolding d0 d1 by (simp_all add: DayFromYear_100 DayFromYear_10000)
  have z: "\<bar>0::int\<bar> \<le> msPerDay" by (simp add: msPerDay_def)
  have tv: "(case field ed_every_day ''time'' of Undefined \<Rightarrow> Str ''00:00'' | v \<Rightarrow> v) = Str ''10:00''"
    by code_simp
  have h: "component (split_on CHR '':'' ''10:00'') 0 = Ok (Num 10)"
    and mi: "component (split_on CHR '':'' ''10:00'') 1 = Ok (Num 0)"
    by code_simp+
  have dur: "ToNumber (finalDuration ed_every_day) = Ok (Num 15)"
    by code_simp
  have days: "[19723..19729] = [19723, 19724, 19725, 19726, 19727, 19728, 19729::int]"
    by code_simp
  have f: "filter (\<lambda>r. series_id r \<noteq> SqlText ''s1'') rows0 = [row0 ''ev-3'' ''Spike'' SqlNull]"
    by (simp add: rows0_def row0_def)
  show ?thesis
    using empty_selection_every_day[OF a sel s u lo hi z tv h mi dur, of gen0 None rows0]
    unfolding d0 d1 f by (simp add: days)
qed

lemma midnight_gap:
  assumes "t0 = d0 * msPerDay - z" "t1 = d1 * msPerDay - z" "t1 < t0"
  shows "d1 * msPerDay + 86340000 - z < t0"
proof -
  have "d1 * msPerDay < d0 * msPerDay" using assms by simp
  then have "d1 < d0" by (simp add: msPerDay_def)
  then have "d1 + 1 \<le> d0" by simp
  then have "(d1 + 1) * msPerDay \<le> d0 * msPerDay" by (simp add: msPerDay_def)
  then show ?thesis using assms(1) by (simp add: msPerDay_def algebra_simps)
qed

text \<open>
  Claim C5. The walk is finite: from a cursor \<open>c\<close> to an end \<open>u\<close> the expander yields at most
  one instance for each day between them (the loop and the expander are total functions,
  their measure being the distance from the cursor to the end). When \<^verbatim>\<open>recur_until\<close> is a
  day before \<^verbatim>\<open>series_start_date\<close>, the expander yields no instance and the handler answers
  200, having deleted the rows of the series and inserted none.
\<close>

theorem expansion_terminates:
  assumes sid: "param_given (Some sid)"
    and nf: "\<forall>k. \<not> flt k"
    and sel: "selected_days (field ed ''recurring_days'') = Ok sel"
    and s: "parseDateTime z (field ed ''series_start_date'') Undefined = Ok (Num t0)"
    and u: "parseDateTime z (field ed ''recur_until'') Undefined = Ok (Num t1)"
    and lt: "t1 < t0"
  shows "expander z ed = Ok [] \<and>
         handler_PUT z gen flt (Some sid) p_uid ed rows =
           Some (\<lparr>statusCode = 200, body = ''Event series updated successfully''\<rparr>,
                 filter (\<lambda>r. series_id r \<noteq> SqlText sid) rows) \<and>
         (\<forall>sel' u' c ps. expand z ed sel' (Num u') (Num c) = Ok ps \<longrightarrow>
            int (length ps) \<le> max 0 ((u' - c) div msPerDay + 1))"
proof -
  have t0: "t0 = Day (t0 + z) * msPerDay - z" using parseDateTime_midnight[OF s] by simp
  have t1: "t1 = Day (t1 + z) * msPerDay - z" using parseDateTime_midnight[OF u] by simp
  define tu where "tu = UTC z (MakeDate (Day (t1 + z)) (MakeTime 23 59))"
  have tu: "tu = Day (t1 + z) * msPerDay + 86340000 - z"
    by (simp add: tu_def UTC_def MakeDate_def MakeTime_def msPerHour_def msPerMinute_def)
  have "parseDateTime z (field ed ''recur_until'') (Str ''23:59'') =
          Ok (TimeClip (UTC z (MakeDate (Day (t1 + z)) (MakeTime 23 59))))"
    by (rule conjunct2[OF parseDateTime_midnight[OF u], rule_format, of "Str ''23:59''" "''23:59''"])
       (simp, rule time_2359(1), rule time_2359(2))
  then have pu: "parseDateTime z (field ed ''recur_until'') (Str ''23:59'') = Ok (TimeClip tu)"
    by (simp only: tu_def)
  have "tu < t0" unfolding tu using t0 t1 lt by (rule midnight_gap)
  then have "\<not> js_le (Num t0) (TimeClip tu)"
    by (simp add: TimeClip_def)
  then have e: "expander z ed = Ok []"
    by (simp add: expander_def sel s pu expand_stop)
  have "handler_PUT z gen flt (Some sid) p_uid ed rows =
           Some (\<lparr>statusCode = 200, body = ''Event series updated successfully''\<rparr>,
                 filter (\<lambda>r. series_id r \<noteq> SqlText sid) rows)"
    by (simp add: handler_PUT_series[OF sid] replace_series_nofault[OF nf] e)
  then show ?thesis using e expand_length by blast
qed

theorem expansion_terminates_witness:
  "expander 0 ed_reversed = Ok [] \<and>
   handler_PUT 0 gen0 (\<lambda>k. False) (Some ''s1'') None ed_reversed rows0 =
     Some (\<lparr>statusCode = 200, body = ''Event series updated successfully''\<rparr>,
           [row0 ''ev-3'' ''Spike'' SqlNull])"
proof -
  have a: "param_given (Some ''s1'')" "\<forall>k. \<not> (\<lambda>k::nat. False) k"
    by (simp_all add: param_given_def)
  have sel: "selected_days (field ed_reversed ''recurring_days'') = Ok [Num 1, Num 3, Num 5]"
    by code_simp
  have s: "parseDateTime 0 (field ed_reversed ''series_start_date'') Undefined =
             Ok (Num 1704067200000)"
    by code_simp
  have u: "parseDateTime 0 (field ed_reversed ''recur_until'') Undefined = Ok (Num 1703462400000)"
    by code_simp
  have lt: "(1703462400000::int) < 1704067200000" by simp
  have f: "filter (\<lambda>r. series_id r \<noteq> SqlText ''s1'') rows0 = [row0 ''ev-3'' ''Spike'' SqlNull]"
    by (simp add: rows0_def row0_def)
  show ?thesis
    using expansion_terminates[OF a sel s u lt, of gen0 None rows0]
    unfolding f by simp
qed

lemma loop_body_minutes:
  assumes "loop_body cx cur st = Ok st'"
  shows "tbl st' = tbl st \<or>
         (\<exists>m r. ToNumber (finalDuration (eventData cx)) = Ok (Num m) \<and>
                 duration_ms r = Some (m * 60000) \<and> tbl st' = tbl st @ [r])"
proof (cases "day_instance (tza cx) (eventData cx) (selectedDays cx) cur")
  case (Ok inst)
  show ?thesis
  proof (cases inst)
    case None
    then show ?thesis using assms Ok by (simp add: loop_body_day_instance)
  next
    case (Some p)
    from day_instance_minutes[OF Ok[unfolded Some]] obtain m where
      m: "ToNumber (finalDuration (eventData cx)) = Ok (Num m)" "snd p = fst p + m * 60000"
      by blast
    let ?r = "insert_row (uuid cx) (seriesId cx) (eventData cx) (un st) (fst p) (snd p)"
    have "duration_ms ?r = Some (m * 60000)"
      using m(2) by (simp add: duration_ms_def insert_row_def)
    moreover have "tbl st' = tbl st @ [?r]"
      using assms Ok Some by (auto simp: loop_body_day_instance dest: query_tbl)
    ultimately show ?thesis using m(1) by blast
  qed
next
  case (Throw e)
  then show ?thesis using assms by (simp add: loop_body_day_instance)
next
  case Untracked
  then show ?thesis using assms by (simp add: loop_body_day_instance)
qed

lemma series_loop_minutes:
  "series_loop cx cur st = Ok st' \<Longrightarrow>
     \<exists>new. tbl st' = tbl st @ new \<and>
       (new = [] \<or> (\<exists>m. ToNumber (finalDuration (eventData cx)) = Ok (Num m) \<and>
                          list_all (\<lambda>r. duration_ms r = Some (m * 60000)) new))"
proof (induction cx cur st rule: series_loop.induct)
  case (1 cx cur st)
  show ?case
  proof (cases "js_le cur (untilDate cx)")
    case False
    then show ?thesis using "1.prems" by (simp add: series_loop.simps[of cx cur st])
  next
    case True
    then obtain st1 where b: "loop_body cx cur st = Ok st1"
      and r: "series_loop cx (setDate (tza cx) cur (js_add (getDate (tza cx) cur) (Num 1))) st1 = Ok st'"
      using "1.prems" by (simp add: series_loop.simps[of cx cur st] split: result.splits)
    from "1.IH"[OF True b r] obtain new where
      n: "tbl st' = tbl st1 @ new"
         "new = [] \<or> (\<exists>m. ToNumber (finalDuration (eventData cx)) = Ok (Num m) \<and>
                          list_all (\<lambda>r. duration_ms r = Some (m * 60000)) new)"
      by blast
    from loop_body_minutes[OF b] show ?thesis
    proof
      assume "tbl st1 = tbl st"
      then show ?thesis using n by auto
    next
      assume "\<exists>m r. ToNumber (finalDuration (eventData cx)) = Ok (Num m) \<and>
                 duration_ms r = Some (m * 60000) \<and> tbl st1 = tbl st @ [r]"
      then obtain m r where m: "ToNumber (finalDuration (eventData cx)) = Ok (Num m)"
        "duration_ms r = Some (m * 60000)" "tbl st1 = tbl st @ [r]" by blast
      have "list_all (\<lambda>r. duration_ms r = Some (m * 60000)) (r # new)"
        using n(2) m(1,2) by auto
      then show ?thesis using n(1) m(1,3) by auto
    qed
  qed
qed

lemma replace_series_minutes:
  assumes "replace_series z gen flt sid ed rows = Ok st"
  shows "\<exists>new. tbl st = filter (\<lambda>r. series_id r \<noteq> SqlText sid) rows @ new \<and>
       (new = [] \<or> (\<exists>m. ToNumber (finalDuration ed) = Ok (Num m) \<and>
                          list_all (\<lambda>r. duration_ms r = Some (m * 60000)) new))"
proof -
  from assms[unfolded replace_series_def rbind_Ok] obtain st1 st2 sel cur until st3 where
    q1: "query flt (\<lambda>t. t) \<lparr>tbl = rows, qn = 0, un = 0\<rparr> = Ok st1"
    and q2: "query flt (filter (\<lambda>r. series_id r \<noteq> SqlText sid)) st1 = Ok st2"
    and l: "series_loop \<lparr>tza = z, uuid = gen, fault = flt, seriesId = sid, eventData = ed,
               selectedDays = (if length sel = 0 then map Num [0, 1, 2, 3, 4, 5, 6] else sel),
               untilDate = until\<rparr> cur st2 = Ok st3"
    and c: "query flt (\<lambda>t. t) st3 = Ok st"
    by blast
  from series_loop_minutes[OF l] obtain new where
    n: "tbl st3 = tbl st2 @ new"
       "new = [] \<or> (\<exists>m. ToNumber (finalDuration ed) = Ok (Num m) \<and>
                          list_all (\<lambda>r. duration_ms r = Some (m * 60000)) new)"
    by auto
  have "tbl st2 = filter (\<lambda>r. series_id r \<noteq> SqlText sid) rows"
    using query_tbl[OF q1] query_tbl[OF q2] by simp
  moreover have "tbl st = tbl st3" using query_tbl[OF c] by simp
  ultimately show ?thesis using n by auto
qed

text \<open>
  Claim C3. In every successful replacement the new rows end a fixed time after they
  start: 30 minutes when the type is \<^verbatim>\<open>meet-and-greet\<close>, whatever the body's duration; the
  duration of the body, as a number of minutes, otherwise.
\<close>

theorem instance_duration:
  assumes h: "handler_PUT z gen flt (Some sid) p_uid ed rows = Some (resp, rows')"
    and sid: "param_given (Some sid)"
    and ok: "statusCode resp = 200"
  shows "\<exists>new. rows' = filter (\<lambda>r. series_id r \<noteq> SqlText sid) rows @ new \<and>
           (if field ed ''type'' = Str ''meet-and-greet''
            then list_all (\<lambda>r. duration_ms r = Some (30 * 60000)) new
            else new = [] \<or>
                 (\<exists>m. ToNumber (field ed ''duration'') = Ok (Num m) \<and>
                      list_all (\<lambda>r. duration_ms r = Some (m * 60000)) new))"
proof -
  from h ok obtain st where r: "replace_series z gen flt sid ed rows = Ok st"
    and t: "rows' = tbl st"
    by (auto simp: handler_PUT_series[OF sid] split: result.splits)
  from replace_series_minutes[OF r] obtain new where
    n: "tbl st = filter (\<lambda>r. series_id r \<noteq> SqlText sid) rows @ new"
       "new = [] \<or> (\<exists>m. ToNumber (finalDuration ed) = Ok (Num m) \<and>
                          list_all (\<lambda>r. duration_ms r = Some (m * 60000)) new)"
    by blast
  show ?thesis
  proof (cases "field ed ''type'' = Str ''meet-and-greet''")
    case True
    then have "ToNumber (finalDuration ed) = Ok (Num 30)"
      by (simp add: finalDuration_def tracked_def)
    then have "list_all (\<lambda>r. duration_ms r = Some (30 * 60000)) new"
      using n(2) by auto
    then show ?thesis using n(1) t True by auto
  next
    case False
    then have "finalDuration ed = field ed ''duration''" by (simp add: finalDuration_def)
    then show ?thesis using n t False by auto
  qed
qed

theorem instance_duration_witness:
  "\<exists>resp rows' new.
     handler_PUT 0 gen0 (\<lambda>k. False) (Some ''s1'') None ed_meet rows0 = Some (resp, rows') \<and>
     statusCode resp = 200 \<and>
     field ed_meet ''duration'' = Number 60 \<and>
     rows' = filter (\<lambda>r. series_id r \<noteq> SqlText ''s1'') rows0 @ new \<and>
     length new = 3 \<and>
     list_all (\<lambda>r. duration_ms r = Some (30 * 60000)) new"
proof -
  define rows' where "rows' =
         [row0 ''ev-3'' ''Spike'' SqlNull,
          insert_row gen0 ''s1'' ed_meet 0 1704099600000 1704101400000,
          insert_row gen0 ''s1'' ed_meet 1 1704272400000 1704274200000,
          insert_row gen0 ''s1'' ed_meet 2 1704445200000 1704447000000]"
  define resp where "resp = \<lparr>statusCode = 200, body = ''Event series updated successfully''\<rparr>"
  have e: "handler_PUT 0 gen0 (\<lambda>k. False) (Some ''s1'') None ed_meet rows0 = Some (resp, rows')"
    unfolding rows'_def resp_def by code_simp
  have a: "param_given (Some ''s1'')" by (simp add: param_given_def)
  have ok: "statusCode resp = 200" by (simp add: resp_def)
  have ty: "field ed_meet ''type'' = Str ''meet-and-greet''" by code_simp
  have du: "field ed_meet ''duration'' = Number 60" by code_simp
  have f: "filter (\<lambda>r. series_id r \<noteq> SqlText ''s1'') rows0 = [row0 ''ev-3'' ''Spike'' SqlNull]"
    by (simp add: rows0_def row0_def)
  from instance_duration[OF e a ok] obtain new where
    n: "rows' = filter (\<lambda>r. series_id r \<noteq> SqlText ''s1'') rows0 @ new"
       "list_all (\<lambda>r. duration_ms r = Some (30 * 60000)) new"
    unfolding ty by auto
  have "length rows' = 4" by (simp add: rows'_def)
  then have "length new = 3" using n(1) f by simp
  then show ?thesis using e ok du n by blast
qed

lemma pair_rows_series_id: "list_all (\<lambda>r. series_id r = SqlText sid) (pair_rows gen sid ed n ps)"
  by (induction ps arbitrary: n) (simp_all add: insert_row_def)

lemma pair_rows_pairs:
  "map (\<lambda>r. (dtstart r, dtend r)) (pair_rows gen sid ed n ps) =
     map (\<lambda>p. (SqlTime (fst p), SqlTime (snd p))) ps"
  by (induction ps arbitrary: n) (simp_all add: insert_row_def)

lemma filter_all: "list_all P xs \<Longrightarrow> filter P xs = xs"
  by (induction xs) simp_all

lemma filter_none: "list_all P xs \<Longrightarrow> filter (\<lambda>x. \<not> P x) xs = []"
  by (induction xs) simp_all

lemma series_pairs_replaced:
  "series_pairs sid (filter (\<lambda>r. series_id r \<noteq> SqlText sid) rows @ pair_rows gen sid ed n ps) =
     map (\<lambda>p. (SqlTime (fst p), SqlTime (snd p))) ps"
proof -
  have "filter (\<lambda>r. series_id r = SqlText sid) (filter (\<lambda>r. series_id r \<noteq> SqlText sid) rows) = []"
    by (induction rows) simp_all
  then show ?thesis
    by (simp add: series_pairs_def filter_all[OF pair_rows_series_id] pair_rows_pairs)
qed

lemma filter_replaced:
  "filter (\<lambda>r. series_id r \<noteq> SqlText sid)
     (filter (\<lambda>r. series_id r \<noteq> SqlText sid) rows @ pair_rows gen sid ed n ps) =
   filter (\<lambda>r. series_id r \<noteq> SqlText sid) rows"
  using filter_none[OF pair_rows_series_id, of sid gen ed n ps] by simp



text \<open>
  Claim C7. Let the store raise nothing. If a replacement returns, a second replacement with
  the same body on the table it left returns as well, with the same status, and the series
  has the same pairs of start and end after both, in the same order; the identifiers may
  come from another source.
\<close>

theorem replaceSeries_idempotent:
  assumes sid: "param_given (Some sid)"
    and nf1: "\<forall>k. \<not> flt1 k" and nf2: "\<forall>k. \<not> flt2 k"
    and h: "handler_PUT z g1 flt1 (Some sid) u1 ed rows = Some (r1, rows1)"
  shows "\<exists>r2 rows2.
           handler_PUT z g2 flt2 (Some sid) u2 ed rows1 = Some (r2, rows2) \<and>
           statusCode r2 = statusCode r1 \<and>
           series_pairs sid rows2 = series_pairs sid rows1 \<and>
           set (series_pairs sid rows2) = set (series_pairs sid rows1)"
proof (cases "expander z ed")
  case (Ok ps)
  have 1: "rows1 = filter (\<lambda>r. series_id r \<noteq> SqlText sid) rows @ pair_rows g1 sid ed 0 ps"
    and s1: "statusCode r1 = 200"
    using h by (auto simp: handler_PUT_series[OF sid] replace_series_nofault[OF nf1] Ok)
  have 2: "handler_PUT z g2 flt2 (Some sid) u2 ed rows1 =
             Some (\<lparr>statusCode = 200, body = ''Event series updated successfully''\<rparr>,
                   filter (\<lambda>r. series_id r \<noteq> SqlText sid) rows1 @ pair_rows g2 sid ed 0 ps)"
    by (simp add: handler_PUT_series[OF sid] replace_series_nofault[OF nf2] Ok)
  have "series_pairs sid (filter (\<lambda>r. series_id r \<noteq> SqlText sid) rows1 @ pair_rows g2 sid ed 0 ps)
          = series_pairs sid rows1"
    unfolding 1 filter_replaced series_pairs_replaced ..
  then show ?thesis using 2 s1 by simp
next
  case (Throw e)
  have 1: "rows1 = rows" and s1: "statusCode r1 = 500"
    using h by (auto simp: handler_PUT_series[OF sid] replace_series_nofault[OF nf1] Throw)
  have 2: "handler_PUT z g2 flt2 (Some sid) u2 ed rows1 =
             Some (\<lparr>statusCode = 500, body = ''Internal Server Error''\<rparr>, rows1)"
    by (simp add: handler_PUT_series[OF sid] replace_series_nofault[OF nf2] Throw)
  show ?thesis using 2 s1 by simp
next
  case Untracked
  then show ?thesis
    using h by (simp add: handler_PUT_series[OF sid] replace_series_nofault[OF nf1])
qed

theorem replaceSeries_idempotent_witness:
  "\<exists>r2 rows2.
     handler_PUT 0 gen1 (\<lambda>k. False) (Some ''s1'') None ed1
       [row0 ''ev-3'' ''Spike'' SqlNull,
        insert_row gen0 ''s1'' ed1 0 1704099600000 1704103200000,
        insert_row gen0 ''s1'' ed1 1 1704272400000 1704276000000,
        insert_row gen0 ''s1'' ed1 2 1704445200000 1704448800000] = Some (r2, rows2) \<and>
     statusCode r2 = 200 \<and>
     series_pairs ''s1'' rows2 =
       [(SqlTime 1704099600000, SqlTime 1704103200000),
        (SqlTime 1704272400000, SqlTime 1704276000000),
        (SqlTime 1704445200000, SqlTime 1704448800000)]"
proof -
  define rows1 where "rows1 =
         [row0 ''ev-3'' ''Spike'' SqlNull,
          insert_row gen0 ''s1'' ed1 0 1704099600000 1704103200000,
          insert_row gen0 ''s1'' ed1 1 1704272400000 1704276000000,
          insert_row gen0 ''s1'' ed1 2 1704445200000 1704448800000]"
  define r1 where "r1 = \<lparr>statusCode = 200, body = ''Event series updated successfully''\<rparr>"
  have e: "handler_PUT 0 gen0 (\<lambda>k. False) (Some ''s1'') None ed1 rows0 = Some (r1, rows1)"
    unfolding rows1_def r1_def by code_simp
  have a: "param_given (Some ''s1'')" "\<forall>k. \<not> (\<lambda>k::nat. False) k" "\<forall>k. \<not> (\<lambda>k::nat. False) k"
    by (simp_all add: param_given_def)
  have p: "series_pairs ''s1'' rows1 =
       [(SqlTime 1704099600000, SqlTime 1704103200000),
        (SqlTime 1704272400000, SqlTime 1704276000000),
        (SqlTime 1704445200000, SqlTime 1704448800000)]"
    by (simp add: series_pairs_def rows1_def row0_def insert_row_def)
  have s: "statusCode r1 = 200" by (simp add: r1_def)
  show ?thesis
    using replaceSeries_idempotent[OF a e, of gen1 None, unfolded p s]
    unfolding rows1_def by blast
qed

section \<open>Malformed dates and times\<close>

lemma Number_js_no_Throw: "Number_js s \<noteq> Throw e"
  by (simp add: Number_js_def Let_def tracked_def)

lemma component_cases: "component ps i = Untracked \<or> (\<exists>v. component ps i = Ok v)"
  using Number_js_no_Throw[of "ps ! i"]
  by (cases "component ps i") (auto simp: component_def split: if_splits)

lemma parse_malformed_date:
  assumes m: "malformed_date ds"
    and tv: "(case tv of Undefined \<Rightarrow> Str ''00:00'' | v \<Rightarrow> v) = Str ts"
    and h: "component (split_on CHR '':'' ts) 0 = Ok hv"
    and mi: "component (split_on CHR '':'' ts) 1 = Ok mv"
  shows "parseDateTime z (Str ds) tv = Ok NaN"
proof -
  let ?p = "date_parts ds"
  have u: "component ?p 0 \<noteq> Untracked" "component ?p 1 \<noteq> Untracked" "component ?p 2 \<noteq> Untracked"
    using m by (simp_all add: malformed_date_def)
  obtain y mo d where c: "component ?p 0 = Ok y" "component ?p 1 = Ok mo" "component ?p 2 = Ok d"
    using u component_cases[of ?p 0] component_cases[of ?p 1] component_cases[of ?p 2] by auto
  have "Ok NaN \<in> {component ?p 0, component ?p 1, component ?p 2}"
    using m by (simp add: malformed_date_def)
  then have n: "isNaN y \<or> isNaN mo \<or> isNaN d"
    unfolding c by auto
  have c1: "component ?p (Suc 0) = Ok mo" using c(2) by simp
  have mi1: "component (split_on CHR '':'' ts) (Suc 0) = Ok mv" using mi by simp
  show ?thesis
    unfolding parseDateTime_def
    using n by (simp add: c[unfolded date_parts_def] c1[unfolded date_parts_def] tv h mi1 Let_def)
qed

lemma no_iteration_200:
  assumes sid: "param_given (Some sid)" and nf: "\<forall>k. \<not> flt k"
    and sel: "selected_days (field ed ''recurring_days'') = Ok sel"
    and s: "parseDateTime z (field ed ''series_start_date'') Undefined = Ok c"
    and u: "parseDateTime z (field ed ''recur_until'') (Str ''23:59'') = Ok u"
    and n: "\<not> js_le c u"
  shows "handler_PUT z gen flt (Some sid) p_uid ed rows =
           Some (\<lparr>statusCode = 200, body = ''Event series updated successfully''\<rparr>,
                 filter (\<lambda>r. series_id r \<noteq> SqlText sid) rows)"
proof -
  have e: "expander z ed = Ok []"
    using n by (simp add: expander_def sel s u expand_stop)
  show ?thesis
    by (simp add: handler_PUT_series[OF sid] replace_series_nofault[OF nf] e)
qed

lemma day_instance_bad_time:
  assumes lo: "DayFromYear 100 \<le> d" and hi: "d < DayFromYear 10000"
    and tv: "field ed ''time'' = Str ts" and m: "malformed_time ts"
    and dur: "ToNumber (finalDuration ed) = Ok dv"
  shows "day_instance z ed sel (Num (d * msPerDay - z)) =
           (if Num ((d + 4) mod 7) \<in> set sel then Throw RangeError else Ok None)"
proof -
  let ?p = "split_on CHR '':'' ts"
  have u: "component ?p 0 \<noteq> Untracked" "component ?p 1 \<noteq> Untracked"
    using m by (simp_all add: malformed_time_def)
  obtain hv mv where c: "component ?p 0 = Ok hv" "component ?p 1 = Ok mv"
    using u component_cases[of ?p 0] component_cases[of ?p 1] by auto
  have "Ok NaN \<in> {component ?p 0, component ?p 1}"
    using m by (simp add: malformed_time_def)
  then have n: "hv = NaN \<or> mv = NaN" unfolding c by auto
  have D: "Day (d * msPerDay - z + z) = d" by (simp add: Day_mult)
  have tv': "(case field ed ''time'' of Undefined \<Rightarrow> Str ''00:00'' | v \<Rightarrow> v) = Str ts"
    by (simp add: tv)
  have nd: "new_Date z (Num y) (Num mo) (Num dd) hv mv = NaN" for y mo dd
    using n by (cases hv; cases mv) auto
  have p: "parseDateTime z (Str (formatDateToYYYYMMDD z (Num (d * msPerDay - z)))) (field ed ''time'')
             = Ok NaN"
    using parse_format_any[of "d * msPerDay - z" z, OF _ _ tv' c] lo hi
    unfolding D by (simp add: nd)
  show ?thesis
    by (simp add: day_instance_def getDay_midnight p dur toISOString_def)
qed

lemma expand_bad_time:
  assumes hi: "Day (tu + z) < DayFromYear 10000"
    and bz: "\<bar>z\<bar> \<le> msPerDay"
    and tv: "field ed ''time'' = Str ts" and m: "malformed_time ts"
    and dur: "ToNumber (finalDuration ed) = Ok dv"
  shows "DayFromYear 100 \<le> d \<Longrightarrow> n = nat (Day (tu + z) + 1 - d) \<Longrightarrow>
         expected_days d (Day (tu + z)) sel \<noteq> [] \<Longrightarrow>
         expand z ed sel (Num tu) (Num (d * msPerDay - z)) = Throw RangeError"
proof (induction n arbitrary: d)
  case 0
  then have "Day (tu + z) < d" by simp
  then show ?case using "0.prems"(3) by (simp add: expected_days_empty)
next
  case (Suc n)
  let ?d1 = "Day (tu + z)"
  let ?cur = "d * msPerDay - z"
  have le: "d \<le> ?d1" using Suc.prems(2) by simp
  have dhi: "d < DayFromYear 10000" using le hi by simp
  have c: "js_le (Num ?cur) (Num tu)" using le by (simp add: midnight_le_iff)
  have di: "day_instance z ed sel (Num ?cur) =
           (if Num ((d + 4) mod 7) \<in> set sel then Throw RangeError else Ok None)"
    by (rule day_instance_bad_time[OF Suc.prems(1) dhi tv m dur])
  show ?case
  proof (cases "Num ((d + 4) mod 7) \<in> set sel")
    case True
    then show ?thesis using c di by (simp add: expand.simps[of _ _ _ _ "Num ?cur"])
  next
    case False
    have b: "\<bar>z\<bar> \<le> 86400000" using bz by (simp add: msPerDay_def)
    have dlo: "- 683003 \<le> d" and dh: "d < 2932897"
      using Suc.prems(1) dhi by (simp_all add: DayFromYear_100 DayFromYear_10000)
    have "- 8640000000000000 \<le> ?cur + msPerDay \<and> ?cur + msPerDay \<le> 8640000000000000"
      using b dlo dh unfolding msPerDay_def by linarith
    then have "TimeClip (?cur + msPerDay) = Num (?cur + msPerDay)"
      by (rule TimeClip_Num)
    then have nx: "setDate z (Num ?cur) (js_add (getDate z (Num ?cur)) (Num 1))
                  = Num ((d + 1) * msPerDay - z)"
      by (simp add: setDate_next algebra_simps)
    have lo': "DayFromYear 100 \<le> d + 1" using Suc.prems(1) by simp
    have n': "n = nat (?d1 + 1 - (d + 1))" using Suc.prems(2) by simp
    have ne: "expected_days (d + 1) ?d1 sel \<noteq> []"
      using Suc.prems(3) False by (simp add: expected_days_rec[OF le])
    have ih: "expand z ed sel (Num tu) (Num ((d + 1) * msPerDay - z)) = Throw RangeError"
      by (rule Suc.IH[OF lo' n' ne])
    show ?thesis
      using c di False by (simp add: expand.simps[of _ _ _ _ "Num ?cur"] nx ih)
  qed
qed

lemma parse_until_2359:
  assumes u: "parseDateTime z v Undefined = Ok (Num t1)"
    and hi: "Day (t1 + z) < DayFromYear 10000"
    and z: "\<bar>z\<bar> \<le> msPerDay"
  shows "\<exists>tu. parseDateTime z v (Str ''23:59'') = Ok (Num tu) \<and> Day (tu + z) = Day (t1 + z)"
proof -
  let ?d1 = "Day (t1 + z)"
  have t1: "t1 = ?d1 * msPerDay - z" using parseDateTime_midnight[OF u] by simp
  define tu where "tu = UTC z (MakeDate ?d1 (MakeTime 23 59))"
  have tu: "tu = ?d1 * msPerDay + 86340000 - z"
    by (simp add: tu_def UTC_def MakeDate_def MakeTime_def msPerHour_def msPerMinute_def)
  have bz: "\<bar>z\<bar> \<le> 86400000" using z by (simp add: msPerDay_def)
  have d1hi: "?d1 < 2932897" using hi by (simp add: DayFromYear_10000)
  have "\<bar>t1\<bar> \<le> 8640000000000000"
  proof (rule parseDateTime_valid[OF u])
    fix ts d h mi
    assume "TimeClip (UTC z (MakeDate d (MakeTime h mi))) = Num t1"
    then show "\<bar>t1\<bar> \<le> 8640000000000000"
      by (simp add: TimeClip_def split: if_splits)
  qed
  then have "- 8640000000000000 \<le> ?d1 * msPerDay - z" using t1 by linarith
  then have "- 8640000000000000 \<le> tu \<and> tu \<le> 8640000000000000"
    using bz d1hi unfolding tu msPerDay_def by linarith
  then have ctu: "TimeClip tu = Num tu" by (rule TimeClip_Num)
  have "parseDateTime z v (Str ''23:59'') =
          Ok (TimeClip (UTC z (MakeDate ?d1 (MakeTime 23 59))))"
    by (rule conjunct2[OF parseDateTime_midnight[OF u], rule_format, of "Str ''23:59''" "''23:59''"])
       (simp, rule time_2359(1), rule time_2359(2))
  then have pu: "parseDateTime z v (Str ''23:59'') = Ok (Num tu)"
    by (simp only: tu_def[symmetric] ctu)
  have dtu: "Day (tu + z) = ?d1"
    unfolding tu using Day_within[of 86340000 ?d1] by (simp add: msPerDay_def)
  show ?thesis using pu dtu by blast
qed

text \<open>
  Claim C6, as amended. No malformed date or time string is answered with a client error.
  A date string with a part that is not numeric parses to an Invalid Date; when
  \<^verbatim>\<open>series_start_date\<close> or \<^verbatim>\<open>recur_until\<close> is such a string the loop body never runs: the
  handler answers 200, the rows of the series are deleted and none is inserted. A time
  string with an hour or a minute that is not numeric makes the first instance an Invalid
  Date; rendering it raises, the transaction is rolled back and the handler answers 500.
  In both cases no invalid timestamp reaches the table.
\<close>

theorem malformed_input_outcome:
  assumes sid: "param_given (Some sid)" and nf: "\<forall>k. \<not> flt k"
    and sel: "selected_days (field ed ''recurring_days'') = Ok sel"
  shows "(\<forall>ds u. field ed ''series_start_date'' = Str ds \<longrightarrow> malformed_date ds \<longrightarrow>
            parseDateTime z (field ed ''recur_until'') (Str ''23:59'') = Ok u \<longrightarrow>
            handler_PUT z gen flt (Some sid) p_uid ed rows =
              Some (\<lparr>statusCode = 200, body = ''Event series updated successfully''\<rparr>,
                    filter (\<lambda>r. series_id r \<noteq> SqlText sid) rows)) \<and>
         (\<forall>du c. field ed ''recur_until'' = Str du \<longrightarrow> malformed_date du \<longrightarrow>
            parseDateTime z (field ed ''series_start_date'') Undefined = Ok c \<longrightarrow>
            handler_PUT z gen flt (Some sid) p_uid ed rows =
              Some (\<lparr>statusCode = 200, body = ''Event series updated successfully''\<rparr>,
                    filter (\<lambda>r. series_id r \<noteq> SqlText sid) rows)) \<and>
         (\<forall>ts dv t0 t1. field ed ''time'' = Str ts \<longrightarrow> malformed_time ts \<longrightarrow>
            ToNumber (finalDuration ed) = Ok dv \<longrightarrow>
            parseDateTime z (field ed ''series_start_date'') Undefined = Ok (Num t0) \<longrightarrow>
            parseDateTime z (field ed ''recur_until'') Undefined = Ok (Num t1) \<longrightarrow>
            DayFromYear 100 \<le> Day (t0 + z) \<longrightarrow> Day (t1 + z) < DayFromYear 10000 \<longrightarrow>
            \<bar>z\<bar> \<le> msPerDay \<longrightarrow>
            expected_days (Day (t0 + z)) (Day (t1 + z))
              (if sel = [] then map Num [0, 1, 2, 3, 4, 5, 6] else sel) \<noteq> [] \<longrightarrow>
            handler_PUT z gen flt (Some sid) p_uid ed rows =
              Some (\<lparr>statusCode = 500, body = ''Internal Server Error''\<rparr>, rows))"
proof (intro conjI allI impI)
  fix ds u
  assume f: "field ed ''series_start_date'' = Str ds" and m: "malformed_date ds"
    and u: "parseDateTime z (field ed ''recur_until'') (Str ''23:59'') = Ok u"
  have s: "parseDateTime z (field ed ''series_start_date'') Undefined = Ok NaN"
    unfolding f by (rule parse_malformed_date[OF m, of Undefined "''00:00''"])
                   (simp, rule time_0000(1), rule time_0000(2))
  show "handler_PUT z gen flt (Some sid) p_uid ed rows =
              Some (\<lparr>statusCode = 200, body = ''Event series updated successfully''\<rparr>,
                    filter (\<lambda>r. series_id r \<noteq> SqlText sid) rows)"
    by (rule no_iteration_200[OF sid nf sel s u]) simp
next
  fix du c
  assume f: "field ed ''recur_until'' = Str du" and m: "malformed_date du"
    and s: "parseDateTime z (field ed ''series_start_date'') Undefined = Ok c"
  have u: "parseDateTime z (field ed ''recur_until'') (Str ''23:59'') = Ok NaN"
    unfolding f by (rule parse_malformed_date[OF m, of "Str ''23:59''" "''23:59''"])
                   (simp, rule time_2359(1), rule time_2359(2))
  show "handler_PUT z gen flt (Some sid) p_uid ed rows =
              Some (\<lparr>statusCode = 200, body = ''Event series updated successfully''\<rparr>,
                    filter (\<lambda>r. series_id r \<noteq> SqlText sid) rows)"
    by (rule no_iteration_200[OF sid nf sel s u]) (cases c; simp)
next
  fix ts dv t0 t1
  assume tv: "field ed ''time'' = Str ts" and m: "malformed_time ts"
    and dur: "ToNumber (finalDuration ed) = Ok dv"
    and s: "parseDateTime z (field ed ''series_start_date'') Undefined = Ok (Num t0)"
    and u: "parseDateTime z (field ed ''recur_until'') Undefined = Ok (Num t1)"
    and lo: "DayFromYear 100 \<le> Day (t0 + z)" and hi: "Day (t1 + z) < DayFromYear 10000"
    and z: "\<bar>z\<bar> \<le> msPerDay"
    and ne: "expected_days (Day (t0 + z)) (Day (t1 + z))
              (if sel = [] then map Num [0, 1, 2, 3, 4, 5, 6] else sel) \<noteq> []"
  define sel' where "sel' = (if length sel = 0 then map Num [0, 1, 2, 3, 4, 5, 6] else sel)"
  from parse_until_2359[OF u hi z] obtain tu where
    pu: "parseDateTime z (field ed ''recur_until'') (Str ''23:59'') = Ok (Num tu)"
    and dtu: "Day (tu + z) = Day (t1 + z)" by blast
  have t0: "t0 = Day (t0 + z) * msPerDay - z" using parseDateTime_midnight[OF s] by simp
  have hi': "Day (tu + z) < DayFromYear 10000" using hi dtu by simp
  have ne': "expected_days (Day (t0 + z)) (Day (tu + z)) sel' \<noteq> []"
    using ne by (simp add: dtu sel'_def)
  have "expand z ed sel' (Num tu) (Num (Day (t0 + z) * msPerDay - z)) = Throw RangeError"
    by (rule expand_bad_time[OF hi' z tv m dur lo refl ne'])
  then have "expand z ed sel' (Num tu) (Num t0) = Throw RangeError"
    using t0 by simp
  then have e: "expander z ed = Throw RangeError"
    unfolding expander_def sel'_def by (simp only: sel s pu rbind.simps)
  show "handler_PUT z gen flt (Some sid) p_uid ed rows =
              Some (\<lparr>statusCode = 500, body = ''Internal Server Error''\<rparr>, rows)"
    by (simp add: handler_PUT_series[OF sid] replace_series_nofault[OF nf] e)
qed

theorem malformed_date_accepted:
  "parseDateTime 0 (Str ''tomorrow'') Undefined = Ok NaN \<and>
   handler_PUT 0 gen0 (\<lambda>k. False) (Some ''s1'') None ed_tomorrow rows0 =
     Some (\<lparr>statusCode = 200, body = ''Event series updated successfully''\<rparr>,
           [row0 ''ev-3'' ''Spike'' SqlNull])"
  by code_simp

theorem malformed_input_outcome_witness:
  "handler_PUT 0 gen0 (\<lambda>k. False) (Some ''s1'') None ed_tomorrow rows0 =
     Some (\<lparr>statusCode = 200, body = ''Event series updated successfully''\<rparr>,
           [row0 ''ev-3'' ''Spike'' SqlNull]) \<and>
   handler_PUT 0 gen0 (\<lambda>k. False) (Some ''s1'') None ed_someday rows0 =
     Some (\<lparr>statusCode = 200, body = ''Event series updated successfully''\<rparr>,
           [row0 ''ev-3'' ''Spike'' SqlNull]) \<and>
   handler_PUT 0 gen0 (\<lambda>k. False) (Some ''s1'') None ed_9am rows0 =
     Some (\<lparr>statusCode = 500, body = ''Internal Server Error''\<rparr>, rows0)"
proof -
  have a: "param_given (Some ''s1'')" "\<forall>k. \<not> (\<lambda>k::nat. False) k"
    by (simp_all add: param_given_def)
  have f: "filter (\<lambda>r. series_id r \<noteq> SqlText ''s1'') rows0 = [row0 ''ev-3'' ''Spike'' SqlNull]"
    by (simp add: rows0_def row0_def)
  have sel1: "selected_days (field ed_tomorrow ''recurring_days'') = Ok [Num 1, Num 3, Num 5]"
    and sel2: "selected_days (field ed_someday ''recurring_days'') = Ok [Num 1, Num 3, Num 5]"
    and sel3: "selected_days (field ed_9am ''recurring_days'') = Ok [Num 1, Num 3, Num 5]"
    by code_simp+
  have 1: "field ed_tomorrow ''series_start_date'' = Str ''tomorrow''"
    "malformed_date ''tomorrow''"
    "parseDateTime 0 (field ed_tomorrow ''recur_until'') (Str ''23:59'') = Ok (Num 1704671940000)"
    by code_simp+
  have 2: "field ed_someday ''recur_until'' = Str ''2024-01-xx''"
    "malformed_date ''2024-01-xx''"
    "parseDateTime 0 (field ed_someday ''series_start_date'') Undefined = Ok (Num 1704067200000)"
    by code_simp+
  have 3: "field ed_9am ''time'' = Str ''9am''" "malformed_time ''9am''"
    "ToNumber (finalDuration ed_9am) = Ok (Num 60)"
    "parseDateTime 0 (field ed_9am ''series_start_date'') Undefined = Ok (Num 1704067200000)"
    "parseDateTime 0 (field ed_9am ''recur_until'') Undefined = Ok (Num 1704585600000)"
    by code_simp+
  have d0: "Day (1704067200000 + 0) = 19723" and d1: "Day (1704585600000 + 0) = 19729"
    by (simp_all add: Day_def msPerDay_def)
  have lo: "DayFromYear 100 \<le> Day (1704067200000 + 0)"
    and hi: "Day (1704585600000 + 0) < DayFromYear 10000"
    unfolding d0 d1 by (simp_all add: DayFromYear_100 DayFromYear_10000)
  have z: "\<bar>0::int\<bar> \<le> msPerDay" by (simp add: msPerDay_def)
  have days: "expected_days 19723 19729 [Num 1, Num 3, Num 5] = [19723, 19725, 19727]"
    by code_simp
  have ne: "expected_days (Day (1704067200000 + 0)) (Day (1704585600000 + 0))
              (if [Num 1, Num 3, Num 5] = [] then map Num [0, 1, 2, 3, 4, 5, 6]
               else [Num 1, Num 3, Num 5]) \<noteq> []"
    unfolding d0 d1 by (simp add: days)
  have r1: "handler_PUT 0 gen0 (\<lambda>k. False) (Some ''s1'') None ed_tomorrow rows0 =
     Some (\<lparr>statusCode = 200, body = ''Event series updated successfully''\<rparr>,
           [row0 ''ev-3'' ''Spike'' SqlNull])"
    using malformed_input_outcome[OF a sel1, of 0 gen0 None rows0] 1 unfolding f by blast
  have r2: "handler_PUT 0 gen0 (\<lambda>k. False) (Some ''s1'') None ed_someday rows0 =
     Some (\<lparr>statusCode = 200, body = ''Event series updated successfully''\<rparr>,
           [row0 ''ev-3'' ''Spike'' SqlNull])"
    using malformed_input_outcome[OF a sel2, of 0 gen0 None rows0] 2 unfolding f by blast
  have r3: "handler_PUT 0 gen0 (\<lambda>k. False) (Some ''s1'') None ed_9am rows0 =
     Some (\<lparr>statusCode = 500, body = ''Internal Server Error''\<rparr>, rows0)"
    using malformed_input_outcome[OF a sel3, of 0 gen0 None rows0] 3 lo hi z ne by blast
  show ?thesis using r1 r2 r3 by simp
qed

section \<open>The autocomplete query\<close>

text \<open>
  Claim C8. The query \<^verbatim>\<open>fl\<close> gives the example of the specification, and a query of one
  character gives the empty array. The query \<^verbatim>\<open>__\<close> shows the defect: it is sent to the
  store as the pattern \<^verbatim>\<open>%__%\<close>, in which each underscore stands for any character, so
  every name of two characters or more is returned although none contains the query.
\<close>

theorem getPetNames_wildcard:
  "getPetNames False (Some ''fl'') pets = (200, [''Flash'', ''Fluffy'']) \<and>
   getPetNames False (Some ''f'') pets = (200, []) \<and>
   getPetNames False None pets = (200, []) \<and>
   getPetNames False (Some ''__'') pets = (200, [''Flash'', ''Fluffy'', ''Spike'']) \<and>
   filter (contains_ci ''__'') [''Flash'', ''Fluffy'', ''Spike''] = [] \<and>
   filter (contains_ci ''fl'') [''Flash'', ''Fluffy'', ''Spike''] = [''Flash'', ''Fluffy'']"
  by code_simp

end
